theory Spec2Isabelle
  imports Main
begin

section \<open>JavaScript values\<close>

text \<open>
  The values that flow through the SDK: query objects, records, push payloads.
  An object is the list of its own enumerable properties in enumeration order
  (the order \<^verbatim>\<open>Object.keys\<close> yields); numbers are the integers, which print in
  decimal.
\<close>

datatype jsval =
    JUndefined
  | JNull
  | JBool bool
  | JNum int
  | JStr string
  | JArr "jsval list"
  | JObj "(string \<times> jsval) list"

text \<open>Truthiness, as \<^verbatim>\<open>if (x)\<close>, \<^verbatim>\<open>!x\<close> and \<^verbatim>\<open>a || b\<close> read a value.\<close>

fun truthy :: "jsval \<Rightarrow> bool" where
  "truthy JUndefined = False"
| "truthy JNull = False"
| "truthy (JBool b) = b"
| "truthy (JNum i) = (i \<noteq> 0)"
| "truthy (JStr s) = (s \<noteq> [])"
| "truthy (JArr vs) = True"
| "truthy (JObj kvs) = True"

text \<open>\<^verbatim>\<open>typeof x === 'object'\<close>: true of null, arrays and objects.\<close>

fun typeof_object :: "jsval \<Rightarrow> bool" where
  "typeof_object JNull = True"
| "typeof_object (JArr vs) = True"
| "typeof_object (JObj kvs) = True"
| "typeof_object v = False"

definition digit_char :: "nat \<Rightarrow> char" where
  "digit_char n = ''0123456789'' ! n"

fun dec_nat :: "nat \<Rightarrow> string" where
  "dec_nat n =
     (if n < 10 then [digit_char n] else dec_nat (n div 10) @ [digit_char (n mod 10)])"

declare dec_nat.simps [simp del]

definition dec_int :: "int \<Rightarrow> string" where
  "dec_int i = (if i < 0 then CHR ''-'' # dec_nat (nat (- i)) else dec_nat (nat i))"

text \<open>\<^verbatim>\<open>Array.prototype.join\<close> on strings.\<close>

fun join :: "string \<Rightarrow> string list \<Rightarrow> string" where
  "join sep [] = []"
| "join sep [x] = x"
| "join sep (x # y # ys) = x @ sep @ join sep (y # ys)"

text \<open>
  The string a template literal \<^verbatim>\<open>`${v}`\<close> substitutes for a value: an array joins
  its elements with a comma, null and undefined elements printing as nothing.
\<close>

fun toString :: "jsval \<Rightarrow> string" where
  "toString JUndefined = ''undefined''"
| "toString JNull = ''null''"
| "toString (JBool b) = (if b then ''true'' else ''false'')"
| "toString (JNum i) = dec_int i"
| "toString (JStr s) = s"
| "toString (JArr vs) =
     join '','' (map (\<lambda>v. if v = JUndefined \<or> v = JNull then [] else toString v) vs)"
| "toString (JObj kvs) = ''[object Object]''"

text \<open>
  Modelled from the spec: \<^verbatim>\<open>forEach\<close> of \<^verbatim>\<open>utils\<close> is not among the source files.
  It visits an array's elements by index and an object's own properties in
  \<^verbatim>\<open>Object.keys\<close> order, calling back with (value, key); the SDK's loops below are written
  as recursion over the list of (key, value) pairs it visits.
\<close>

fun forEach_entries :: "jsval \<Rightarrow> (string \<times> jsval) list" where
  "forEach_entries (JObj kvs) = kvs"
| "forEach_entries (JArr vs) = zip (map dec_nat [0 ..< length vs]) vs"
| "forEach_entries v = []"

section \<open>SDKFetch: building the request URL\<close>

text \<open>
  \<^verbatim>\<open>_buildQuery\<close>, lines 266-295 of SDKFetch.ts. The state of the loop is the array
  \<^verbatim>\<open>result\<close> and the warnings sent to the logger so far.
\<close>

definition warn_underscore :: string where
  "warn_underscore = ''query should not contain key '_', it will be ignored''"

text \<open>The inner \<^verbatim>\<open>val.forEach\<close> over an array value.\<close>

fun push_array_vals :: "string \<Rightarrow> jsval list \<Rightarrow> string list \<Rightarrow> string list" where
  "push_array_vals key [] result = result"
| "push_array_vals key (v # vs) result =
     push_array_vals key vs
       (if v \<noteq> JUndefined then result @ [key @ ''='' @ toString v] else result)"

fun buildQuery_loop ::
  "(string \<times> jsval) list \<Rightarrow> string list \<times> string list \<Rightarrow> string list \<times> string list" where
  "buildQuery_loop [] st = st"
| "buildQuery_loop ((key, val) # rest) (result, warns) =
     (if key = ''_'' then buildQuery_loop rest (result, warns @ [warn_underscore])
      else case val of
        JArr vs \<Rightarrow> buildQuery_loop rest (push_array_vals key vs result, warns)
      | _ \<Rightarrow>
          (if val \<noteq> JUndefined
           then buildQuery_loop rest (result @ [key @ ''='' @ toString val], warns)
           else buildQuery_loop rest (result, warns)))"

text \<open>The pair returned is the URL and the warnings logged.\<close>

definition buildQuery :: "string \<Rightarrow> jsval \<Rightarrow> string \<times> string list" where
  "buildQuery url query =
     (if typeof_object query \<and> truthy query then
        (let (result, warns) = buildQuery_loop (forEach_entries query) ([], []);
             q = (if CHR ''?'' \<in> set url
                  then (if result \<noteq> [] then ''&'' @ join ''&'' result else [])
                  else (if result \<noteq> [] then ''?'' @ join ''&'' result else []))
         in (url @ q, warns))
      else (url, []))"

text \<open>
  \<^verbatim>\<open>urlWithPath\<close> and the first two lines of \<^verbatim>\<open>get\<close>: the host is the per-request
  \<^verbatim>\<open>apiHost\<close> option when it is set and not empty, the URL carries the query when the
  query is truthy.
\<close>

definition urlWithPath :: "string \<Rightarrow> string \<Rightarrow> string option \<Rightarrow> string" where
  "urlWithPath thisApiHost path apiHostOpt =
     (let host = (case apiHostOpt of None \<Rightarrow> thisApiHost
                  | Some h \<Rightarrow> if h \<noteq> [] then h else thisApiHost)
      in host @ ''/'' @ path)"

definition urlWithQuery :: "string \<Rightarrow> jsval \<Rightarrow> string" where
  "urlWithQuery url query = (if truthy query then fst (buildQuery url query) else url)"

subsection \<open>The query string as the specification words it\<close>

text \<open>
  What one entry of the query contributes: nothing when its value is undefined, one
  \<open>key=value\<close> per defined element when it is an array, one \<open>key=value\<close> otherwise.
\<close>

definition spec_pairs :: "string \<Rightarrow> jsval \<Rightarrow> string list" where
  "spec_pairs key val =
     (case val of
        JUndefined \<Rightarrow> []
      | JArr vs \<Rightarrow> map (\<lambda>v. key @ ''='' @ toString v) (filter (\<lambda>v. v \<noteq> JUndefined) vs)
      | _ \<Rightarrow> [key @ ''='' @ toString val])"

definition spec_params :: "(string \<times> jsval) list \<Rightarrow> string list" where
  "spec_params q =
     concat (map (\<lambda>(k, v). spec_pairs k v) (filter (\<lambda>(k, v). k \<noteq> ''_'') q))"

definition spec_buildQuery :: "string \<Rightarrow> (string \<times> jsval) list \<Rightarrow> string" where
  "spec_buildQuery url q =
     (if spec_params q = [] then url
      else url @ (if CHR ''?'' \<in> set url then ''&'' else ''?'') @ join ''&'' (spec_params q))"

section \<open>Objects: property lookup, assignment, spread\<close>

fun get_prop :: "(string \<times> jsval) list \<Rightarrow> string \<Rightarrow> jsval" where
  "get_prop [] k = JUndefined"
| "get_prop ((k', v) # kvs) k = (if k' = k then v else get_prop kvs k)"

text \<open>\<^verbatim>\<open>x[k]\<close> on a value: a property of an object, undefined otherwise.\<close>

fun js_prop :: "jsval \<Rightarrow> string \<Rightarrow> jsval" where
  "js_prop (JObj kvs) k = get_prop kvs k"
| "js_prop v k = JUndefined"

text \<open>
  \<^verbatim>\<open>o[k] = v\<close>: an existing property keeps its place in the enumeration order, a new
  one goes last.
\<close>

fun set_prop :: "string \<Rightarrow> jsval \<Rightarrow> (string \<times> jsval) list \<Rightarrow> (string \<times> jsval) list" where
  "set_prop k v [] = [(k, v)]"
| "set_prop k v ((k', v') # kvs) =
     (if k' = k then (k, v) # kvs else (k', v') # set_prop k v kvs)"

text \<open>
  The own enumerable properties a spread \<^verbatim>\<open>{...x}\<close> or \<^verbatim>\<open>Object.assign(t, x)\<close> copies
  from \<open>x\<close>: those of an object, the indexed elements of an array, the indexed
  characters of a string, none of any other value.
\<close>

fun spread :: "jsval \<Rightarrow> (string \<times> jsval) list" where
  "spread (JObj kvs) = kvs"
| "spread (JArr vs) = zip (map dec_nat [0 ..< length vs]) vs"
| "spread (JStr s) = zip (map dec_nat [0 ..< length s]) (map (\<lambda>c. JStr [c]) s)"
| "spread v = []"

definition assign_props ::
  "(string \<times> jsval) list \<Rightarrow> (string \<times> jsval) list \<Rightarrow> (string \<times> jsval) list" where
  "assign_props target src = fold (\<lambda>(k, v) t. set_prop k v t) src target"

text \<open>\<^verbatim>\<open>Object.assign(datum, r)\<close>, the record being an object.\<close>

fun object_assign :: "jsval \<Rightarrow> jsval \<Rightarrow> jsval" where
  "object_assign (JObj kvs) r = JObj (assign_props kvs (spread r))"
| "object_assign d r = d"

section \<open>The external collaborators\<close>

text \<open>
  The value an observable fails with: a plain value (an \<^verbatim>\<open>Error\<close>, the transport's
  \<^verbatim>\<open>HttpErrorMessage\<close>), given by its message, or a value that is itself an observable
  of errors, given by the messages of the errors it emits and by how it ends.
\<close>

datatype failure =
    ErrorValue string
  | ErrorObservable "string list" "string option"

text \<open>
  An observable is modelled by what a subscription to it delivers: the values it emits,
  in order, and then either completion (\<open>None\<close>) or an error (\<open>Some\<close> failure).
  A network request is a cold observable: each subscription performs it; it carries a
  number that identifies it in the trace.
\<close>

type_synonym 'a stream = "'a list \<times> failure option"

type_synonym request = "nat \<times> jsval stream"

text \<open>
  The store (ReactiveDB) and the two library functions the engine calls are external: the
  engine is verified against any implementation of them. A database object is a number;
  \<open>'s\<close> is the content of a store. \<^verbatim>\<open>Dirty.handleSocketMessage\<close> answers with the effect
  of its merge stream on the store, or \<open>None\<close> for \<^verbatim>\<open>null\<close> (no handler for the type).
\<close>

record 's env =
  db_upsert :: "string \<Rightarrow> jsval \<Rightarrow> 's \<Rightarrow> failure + 's"
  db_delete :: "string \<Rightarrow> jsval \<Rightarrow> 's \<Rightarrow> failure + 's"
  db_get :: "string \<Rightarrow> jsval \<Rightarrow> 's \<Rightarrow> failure + jsval list"
  JSON_stringify :: "jsval \<Rightarrow> string"
  Dirty_handleSocketMessage :: "string \<Rightarrow> jsval \<Rightarrow> jsval \<Rightarrow> ('s \<Rightarrow> failure + 's) option"

section \<open>Net: the data model\<close>

datatype CacheStrategy = Request | Cache

record ApiResult =
  request :: request
  query :: jsval
  tableName :: string
  cacheValidate :: CacheStrategy
  required :: "string list option"
  assocFields :: jsval
  excludeFields :: "string list"
  padding :: "(jsval \<Rightarrow> jsval stream) option"

datatype cud_method = create | update | delete

record CUDApiResult =
  cud_request :: request
  cud_tableName :: string
  cud_method :: cud_method
  cud_clause :: jsval

record SocketMessage =
  sm_id :: string
  sm_method :: string
  sm_data :: jsval

text \<open>
  The method name a buffered write carries: \<^verbatim>\<open>bufferCUDResponse\<close> stores
  \<^verbatim>\<open>'upsert'\<close> or \<^verbatim>\<open>'delete'\<close>, and \<^verbatim>\<open>persist\<close> calls the database method of that name.
\<close>

datatype db_method = m_upsert | m_delete

datatype bufferObject =
    CUD string db_method jsval
  | SocketCUD string SocketMessage string jsval
  | Selector ApiResult nat

text \<open>
  The engine. The field \<^verbatim>\<open>fields\<close> of the source is \<open>fieldsMap\<close> here. \<open>subjects\<close>
  counts the BehaviorSubjects created so far: a placeholder channel is identified by its
  number.
\<close>

record Net =
  fieldsMap :: "string \<Rightarrow> string list option"
  database :: "nat option"
  requestMap :: "string \<Rightarrow> bool option"
  primaryKeys :: "string \<Rightarrow> string option"
  persistedDataBuffer :: "bufferObject list"
  subjects :: nat

datatype error = TypeError string

text \<open>
  A QueryToken: where its selector comes from, and the results whose \<^verbatim>\<open>validate\<close>
  operator has been mapped over it (\<^verbatim>\<open>token.map(this.validate(result))\<close>).
\<close>

datatype selector_source =
    FetchUpsertMarkGet request nat string jsval string
  | FetchUpsertGet request nat string jsval
  | StoreGet nat string jsval

record QueryToken =
  selector :: selector_source
  mapped :: "ApiResult list"

text \<open>
  What a read hands back: before a store is attached, a token over the placeholder
  channel (a BehaviorSubject seeded with a ProxySelector); afterwards a token over the
  store.
\<close>

datatype read_handle =
    Pending nat "ApiResult list"
  | Attached QueryToken

text \<open>
  The observables \<^verbatim>\<open>persist\<close> puts on its queue. They are cold, as the store's and the
  request's observables are: building one calls nothing, the store call or the request
  is made when it is subscribed.
\<close>

datatype 's queued =
    DbUpsert nat string jsval
  | DbDelete nat string jsval
  | DirtyStream nat "'s \<Rightarrow> failure + 's"
  | SelectorDo QueryToken nat

section \<open>Net: construction and issuance\<close>

text \<open>
  The constructor: for each schema, the names of its non-virtual fields and its first
  primary-key field. A field definition is (virtual, primaryKey).
\<close>

fun first_primaryKey :: "(string \<times> bool \<times> bool) list \<Rightarrow> string option" where
  "first_primaryKey [] = None"
| "first_primaryKey ((key, virtual, pk) # rest) =
     (if pk then Some key else first_primaryKey rest)"

fun Net_schemas :: "(string \<times> (string \<times> bool \<times> bool) list) list \<Rightarrow> Net \<Rightarrow> Net" where
  "Net_schemas [] n = n"
| "Net_schemas ((name, schema) # rest) n =
     Net_schemas rest
       (n\<lparr>fieldsMap := (fieldsMap n)(name \<mapsto> map fst (filter (\<lambda>(k, virtual, pk). \<not> virtual) schema)),
          primaryKeys := (case first_primaryKey schema of
                            None \<Rightarrow> primaryKeys n
                          | Some key \<Rightarrow> (primaryKeys n)(name \<mapsto> key))\<rparr>)"

definition Net_new :: "(string \<times> (string \<times> bool \<times> bool) list) list \<Rightarrow> Net" where
  "Net_new schemas =
     Net_schemas schemas
       \<lparr>fieldsMap = Map.empty, database = None, requestMap = Map.empty,
        primaryKeys = Map.empty, persistedDataBuffer = [], subjects = 0\<rparr>"

text \<open>\<^verbatim>\<open>getInfoFromResult\<close>, lines 591-616.\<close>

definition getInfoFromResult ::
  "Net \<Rightarrow> ApiResult \<Rightarrow> error + (request \<times> jsval \<times> CacheStrategy \<times> string)" where
  "getInfoFromResult n result =
     (case fieldsMap n (tableName result) of
        None \<Rightarrow> Inl (TypeError (''table: '' @ tableName result @ '' is not defined''))
      | Some preDefinedFields \<Rightarrow>
          (let fs = (if truthy (assocFields result) then [assocFields result] else [])
                    @ map JStr (filter (\<lambda>f. f \<notin> set (excludeFields result)) preDefinedFields);
               q = JObj (set_prop ''fields'' (JArr fs) (spread (query result)))
           in Inr (request result, q, cacheValidate result, tableName result)))"

definition genCacheKey :: "'s env \<Rightarrow> string \<Rightarrow> jsval \<Rightarrow> string" where
  "genCacheKey env tn q = tn @ '':'' @ JSON_stringify env q"

text \<open>
  \<^verbatim>\<open>handleRequestCache\<close>, lines 548-589; \<open>db\<close> is \<^verbatim>\<open>this.database!\<close>. The key is
  looked up when the read is issued; it is set when the pipeline runs.
\<close>

definition handleRequestCache :: "'s env \<Rightarrow> Net \<Rightarrow> nat \<Rightarrow> ApiResult \<Rightarrow> error + QueryToken" where
  "handleRequestCache env n db result =
     (case getInfoFromResult n result of
        Inl e \<Rightarrow> Inl e
      | Inr (req, q, cv, tn) \<Rightarrow>
          (let cacheKey = genCacheKey env tn q;
               requestCache = (requestMap n cacheKey = Some True)
           in case cv of
                Request \<Rightarrow>
                  (if \<not> requestCache
                   then Inr \<lparr>selector = FetchUpsertMarkGet req db tn q cacheKey, mapped = [result]\<rparr>
                   else Inr \<lparr>selector = StoreGet db tn q, mapped = [result]\<rparr>)
              | Cache \<Rightarrow> Inr \<lparr>selector = FetchUpsertGet req db tn q, mapped = []\<rparr>))"

text \<open>\<^verbatim>\<open>bufferResponse\<close>, lines 496-512.\<close>

definition bufferResponse :: "Net \<Rightarrow> ApiResult \<Rightarrow> error + Net \<times> read_handle" where
  "bufferResponse n result =
     (case getInfoFromResult n result of
        Inl e \<Rightarrow> Inl e
      | Inr info \<Rightarrow>
          (let cacheControl = subjects n
           in Inr (n\<lparr>persistedDataBuffer := persistedDataBuffer n @ [Selector result cacheControl],
                      subjects := Suc (subjects n)\<rparr>,
                   Pending cacheControl [result])))"

text \<open>\<^verbatim>\<open>handleApiResult\<close>, lines 396-405.\<close>

definition handleApiResult :: "'s env \<Rightarrow> Net \<Rightarrow> ApiResult \<Rightarrow> error + Net \<times> read_handle" where
  "handleApiResult env n result =
     (case database n of
        None \<Rightarrow> bufferResponse n result
      | Some db \<Rightarrow>
          (case handleRequestCache env n db result of
             Inl e \<Rightarrow> Inl e
           | Inr token \<Rightarrow> Inr (n, Attached token)))"

text \<open>
  \<^verbatim>\<open>handleCUDAResult\<close> and \<^verbatim>\<open>bufferCUDResponse\<close>, lines 407-432 and 514-525. Issuing a
  write only builds a pipeline over the request: nothing is buffered or stored before
  the request emits.
\<close>

datatype cud_pipeline =
    BufferOnEmit CUDApiResult
  | StoreOnEmit nat CUDApiResult

definition handleCUDAResult :: "Net \<Rightarrow> CUDApiResult \<Rightarrow> cud_pipeline" where
  "handleCUDAResult n result =
     (case database n of
        None \<Rightarrow> BufferOnEmit result
      | Some db \<Rightarrow> StoreOnEmit db result)"

text \<open>
  \<^verbatim>\<open>lift\<close>, lines 388-394: a read descriptor is the one that has a \<^verbatim>\<open>cacheValidate\<close>
  (200 or 201, both truthy).
\<close>

datatype lift_arg = Read ApiResult | Write CUDApiResult

datatype lift_result = Handle read_handle | Pipeline cud_pipeline

definition lift :: "'s env \<Rightarrow> Net \<Rightarrow> lift_arg \<Rightarrow> error + Net \<times> lift_result" where
  "lift env n arg =
     (case arg of
        Read result \<Rightarrow>
          (case handleApiResult env n result of
             Inl e \<Rightarrow> Inl e
           | Inr (n', handle) \<Rightarrow> Inr (n', Handle handle))
      | Write result \<Rightarrow> Inr (n, Pipeline (handleCUDAResult n result)))"

text \<open>\<^verbatim>\<open>bufferSocketPush\<close>, lines 527-541.\<close>

definition bufferSocketPush :: "Net \<Rightarrow> string \<Rightarrow> SocketMessage \<Rightarrow> string \<Rightarrow> jsval \<Rightarrow> Net" where
  "bufferSocketPush n arg socketMessage pkName ty =
     n\<lparr>persistedDataBuffer :=
         persistedDataBuffer n @ [SocketCUD arg socketMessage pkName ty]\<rparr>"

text \<open>The callback of \<^verbatim>\<open>request.do\<close> in \<^verbatim>\<open>bufferCUDResponse\<close>, run at each emission \<open>v\<close>.\<close>

definition bufferCUD_emit :: "CUDApiResult \<Rightarrow> jsval \<Rightarrow> Net \<Rightarrow> Net" where
  "bufferCUD_emit result v n =
     n\<lparr>persistedDataBuffer :=
         persistedDataBuffer n @
           [CUD (cud_tableName result)
                (if cud_method result = create \<or> cud_method result = update
                 then m_upsert else m_delete)
                (if cud_method result = delete then cud_clause result else v)]\<rparr>"

section \<open>Net: attaching the store\<close>

text \<open>
  What one buffered operation puts on \<^verbatim>\<open>asyncQueue\<close> (lines 440-480). Writes and pushes
  go to the \<^verbatim>\<open>database\<close> argument of \<^verbatim>\<open>persist\<close>; a pending selector goes through
  \<^verbatim>\<open>handleRequestCache\<close>, which reads \<^verbatim>\<open>this.database\<close>.
\<close>

definition persist_each ::
  "'s env \<Rightarrow> nat \<Rightarrow> Net \<Rightarrow> nat \<Rightarrow> bufferObject \<Rightarrow> error + 's queued list" where
  "persist_each env database_arg n this_db v =
     (case v of
        CUD tn method val \<Rightarrow>
          Inr [case method of
                 m_upsert \<Rightarrow> DbUpsert database_arg tn val
               | m_delete \<Rightarrow> DbDelete database_arg tn val]
      | SocketCUD arg socketMessage pkName ty \<Rightarrow>
          (if sm_method socketMessage = ''destroy'' \<or> sm_method socketMessage = ''remove''
           then Inr [DbDelete database_arg arg
                      (JObj [(''where'',
                         JObj [(pkName, if sm_id socketMessage \<noteq> []
                                        then JStr (sm_id socketMessage)
                                        else sm_data socketMessage)])])]
           else if sm_method socketMessage = ''new''
           then Inr [DbUpsert database_arg arg (sm_data socketMessage)]
           else if sm_method socketMessage = ''change''
           then (case Dirty_handleSocketMessage env (sm_id socketMessage) ty
                        (sm_data socketMessage) of
                   Some dirtyStream \<Rightarrow> Inr [DirtyStream database_arg dirtyStream]
                 | None \<Rightarrow>
                     Inr [DbUpsert database_arg arg
                           (JObj (set_prop pkName (JStr (sm_id socketMessage))
                                    (spread (sm_data socketMessage))))])
           else Inr [])
      | Selector realSelectorInfo proxySelector \<Rightarrow>
          (case handleRequestCache env n this_db realSelectorInfo of
             Inl e \<Rightarrow> Inl e
           | Inr token \<Rightarrow> Inr [SelectorDo token proxySelector]))"

text \<open>The \<^verbatim>\<open>forEach\<close> over the buffer; an exception leaves the loop.\<close>

fun persist_loop ::
  "'s env \<Rightarrow> nat \<Rightarrow> Net \<Rightarrow> nat \<Rightarrow> bufferObject list \<Rightarrow> 's queued list \<Rightarrow> error + 's queued list" where
  "persist_loop env database_arg n this_db [] asyncQueue = Inr asyncQueue"
| "persist_loop env database_arg n this_db (v # vs) asyncQueue =
     (case persist_each env database_arg n this_db v of
        Inl e \<Rightarrow> Inl e
      | Inr ps \<Rightarrow> persist_loop env database_arg n this_db vs (asyncQueue @ ps))"

text \<open>
  \<^verbatim>\<open>persist\<close>, lines 434-494: the engine afterwards, and the queue the returned
  observable will run (or the exception thrown, the buffer then being as it was).
\<close>

definition persist :: "'s env \<Rightarrow> nat \<Rightarrow> Net \<Rightarrow> Net \<times> (error + 's queued list)" where
  "persist env database_arg n =
     (let n1 = (case database n of None \<Rightarrow> n\<lparr>database := Some database_arg\<rparr> | Some d \<Rightarrow> n);
          this_db = (case database n of None \<Rightarrow> database_arg | Some d \<Rightarrow> d)
      in case persist_loop env database_arg n1 this_db (persistedDataBuffer n1) [] of
           Inl e \<Rightarrow> (n1, Inl e)
         | Inr asyncQueue \<Rightarrow> (n1\<lparr>persistedDataBuffer := []\<rparr>, Inr asyncQueue))"

section \<open>Running the pipelines\<close>

text \<open>
  What the outside world sees of a run: the calls made, in order. A store call is
  recorded when its observable is subscribed, whether it then succeeds or fails.
\<close>

datatype event =
    Fetch nat
  | Upsert nat string jsval
  | Delete nat string jsval
  | Get nat string jsval
  | MarkSeen string
  | Padding jsval
  | DirtyMerge nat
  | ProxyNext nat

record 's world =
  net :: Net
  stores :: "nat \<Rightarrow> 's"
  trace :: "event list"
  logged :: "string list"

definition exec_upsert ::
  "'s env \<Rightarrow> nat \<Rightarrow> string \<Rightarrow> jsval \<Rightarrow> 's world \<Rightarrow> 's world \<times> failure option" where
  "exec_upsert env db tn v w =
     (let w1 = w\<lparr>trace := trace w @ [Upsert db tn v]\<rparr>
      in case db_upsert env tn v (stores w db) of
           Inl e \<Rightarrow> (w1, Some e)
         | Inr s \<Rightarrow> (w1\<lparr>stores := (stores w)(db := s)\<rparr>, None))"

definition exec_delete ::
  "'s env \<Rightarrow> nat \<Rightarrow> string \<Rightarrow> jsval \<Rightarrow> 's world \<Rightarrow> 's world \<times> failure option" where
  "exec_delete env db tn clause w =
     (let w1 = w\<lparr>trace := trace w @ [Delete db tn clause]\<rparr>
      in case db_delete env tn clause (stores w db) of
           Inl e \<Rightarrow> (w1, Some e)
         | Inr s \<Rightarrow> (w1\<lparr>stores := (stores w)(db := s)\<rparr>, None))"

definition exec_dirty ::
  "nat \<Rightarrow> ('s \<Rightarrow> failure + 's) \<Rightarrow> 's world \<Rightarrow> 's world \<times> failure option" where
  "exec_dirty db dirtyStream w =
     (let w1 = w\<lparr>trace := trace w @ [DirtyMerge db]\<rparr>
      in case dirtyStream (stores w db) of
           Inl e \<Rightarrow> (w1, Some e)
         | Inr s \<Rightarrow> (w1\<lparr>stores := (stores w)(db := s)\<rparr>, None))"

definition exec_get ::
  "'s env \<Rightarrow> nat \<Rightarrow> string \<Rightarrow> jsval \<Rightarrow> 's world \<Rightarrow> 's world \<times> (failure + jsval list)" where
  "exec_get env db tn q w =
     (w\<lparr>trace := trace w @ [Get db tn q]\<rparr>, db_get env tn q (stores w db))"

text \<open>
  The pipeline of \<^verbatim>\<open>handleRequestCache\<close> over the values the request emits:
  \<^verbatim>\<open>concatMap(upsert)\<close>, then (ReuseRequest only) \<^verbatim>\<open>tap(requestMap.set(cacheKey, true))\<close>,
  then \<^verbatim>\<open>concatMap(get)\<close>. \<open>notify\<close> is what a subscriber does at each selector that
  comes out. An error ends the pipeline.
\<close>

fun request_pipe ::
  "'s env \<Rightarrow> string option \<Rightarrow> nat \<Rightarrow> string \<Rightarrow> jsval \<Rightarrow> event list \<Rightarrow> jsval list \<Rightarrow> 's world
     \<Rightarrow> 's world \<times> jsval list list \<times> failure option" where
  "request_pipe env mark db tn q notify [] w = (w, [], None)"
| "request_pipe env mark db tn q notify (v # vs) w =
     (case exec_upsert env db tn v w of
        (w1, Some e) \<Rightarrow> (w1, [], Some e)
      | (w1, None) \<Rightarrow>
          (let w2 = (case mark of
                       None \<Rightarrow> w1
                     | Some cacheKey \<Rightarrow>
                         w1\<lparr>net := (net w1)\<lparr>requestMap := (requestMap (net w1))(cacheKey \<mapsto> True)\<rparr>,
                            trace := trace w1 @ [MarkSeen cacheKey]\<rparr>)
           in case exec_get env db tn q w2 of
                (w3, Inl e) \<Rightarrow> (w3, [], Some e)
              | (w3, Inr rows) \<Rightarrow>
                  (case request_pipe env mark db tn q notify vs
                          (w3\<lparr>trace := trace w3 @ notify\<rparr>) of
                     (w4, out, err) \<Rightarrow> (w4, rows # out, err))))"

text \<open>
  Subscribing to a token's selector: the row sets it delivers and how it ends. The
  request's own error, if any, comes after the values it emitted.
\<close>

definition run_selector ::
  "'s env \<Rightarrow> selector_source \<Rightarrow> event list \<Rightarrow> 's world
     \<Rightarrow> 's world \<times> jsval list list \<times> failure option" where
  "run_selector env src notify w =
     (case src of
        FetchUpsertMarkGet req db tn q cacheKey \<Rightarrow>
          (case request_pipe env (Some cacheKey) db tn q notify (fst (snd req))
                  (w\<lparr>trace := trace w @ [Fetch (fst req)]\<rparr>) of
             (w1, out, None) \<Rightarrow> (w1, out, snd (snd req))
           | (w1, out, Some e) \<Rightarrow> (w1, out, Some e))
      | FetchUpsertGet req db tn q \<Rightarrow>
          (case request_pipe env None db tn q notify (fst (snd req))
                  (w\<lparr>trace := trace w @ [Fetch (fst req)]\<rparr>) of
             (w1, out, None) \<Rightarrow> (w1, out, snd (snd req))
           | (w1, out, Some e) \<Rightarrow> (w1, out, Some e))
      | StoreGet db tn q \<Rightarrow>
          (case exec_get env db tn q w of
             (w1, Inl e) \<Rightarrow> (w1, [], Some e)
           | (w1, Inr rows) \<Rightarrow> (w1\<lparr>trace := trace w1 @ notify\<rparr>, [rows], None)))"

subsection \<open>Field-completion padding\<close>

text \<open>
  \<^verbatim>\<open>validate\<close>, lines 335-364. The patch stream of one record: null and undefined are
  filtered out, each other value is upserted and then assigned onto the record. The
  flag says whether anything came out for the record.
\<close>

fun patch_pipe ::
  "'s env \<Rightarrow> string \<Rightarrow> jsval list \<Rightarrow> jsval \<Rightarrow> 's world
     \<Rightarrow> 's world \<times> jsval \<times> bool \<times> failure option" where
  "patch_pipe env tn [] datum w = (w, datum, False, None)"
| "patch_pipe env tn (r # rs) datum w =
     (if r = JNull \<or> r = JUndefined then patch_pipe env tn rs datum w
      else case database (net w) of
        None \<Rightarrow> (w, datum, False, Some (ErrorValue ''TypeError: database is undefined''))
      | Some db \<Rightarrow>
          (case exec_upsert env db tn r w of
             (w1, Some e) \<Rightarrow> (w1, datum, False, Some e)
           | (w1, None) \<Rightarrow>
               (case patch_pipe env tn rs (object_assign datum r) w1 of
                  (w2, datum2, emitted, err) \<Rightarrow> (w2, datum2, True, err))))"

definition needs_padding :: "Net \<Rightarrow> ApiResult \<Rightarrow> jsval \<Rightarrow> bool" where
  "needs_padding n result datum =
     (case (required result, padding result, primaryKeys n (tableName result)) of
        (Some req, Some pad, Some pk) \<Rightarrow>
          pk \<noteq> [] \<and> \<not> list_all (\<lambda>k. js_prop datum k \<noteq> JUndefined) req
      | _ \<Rightarrow> False)"

definition validate_datum ::
  "'s env \<Rightarrow> ApiResult \<Rightarrow> jsval \<Rightarrow> 's world \<Rightarrow> 's world \<times> jsval \<times> bool \<times> failure option" where
  "validate_datum env result datum w =
     (if \<not> needs_padding (net w) result datum then (w, datum, True, None)
      else case (padding result, primaryKeys (net w) (tableName result)) of
        (Some pad, Some pk) \<Rightarrow>
          (let missedId = js_prop datum pk;
               patch = pad missedId
           in case patch_pipe env (tableName result) (fst patch) datum
                     (w\<lparr>trace := trace w @ [Padding missedId]\<rparr>) of
                (w1, datum1, emitted, None) \<Rightarrow> (w1, datum1, emitted, snd patch)
              | (w1, datum1, emitted, Some e) \<Rightarrow> (w1, datum1, emitted, Some e))
      | _ \<Rightarrow> (w, datum, True, None))"

text \<open>The \<^verbatim>\<open>mergeMap\<close> over the records of one result; an error ends it.\<close>

fun validate_each ::
  "'s env \<Rightarrow> ApiResult \<Rightarrow> jsval list \<Rightarrow> 's world \<Rightarrow> 's world \<times> jsval list \<times> bool \<times> failure option" where
  "validate_each env result [] w = (w, [], False, None)"
| "validate_each env result (datum # rest) w =
     (case validate_datum env result datum w of
        (w1, datum1, emitted, Some e) \<Rightarrow> (w1, datum1 # rest, emitted, Some e)
      | (w1, datum1, emitted, None) \<Rightarrow>
          (case validate_each env result rest w1 of
             (w2, rest2, emitted2, err) \<Rightarrow> (w2, datum1 # rest2, emitted \<or> emitted2, err)))"

text \<open>
  The operator on one result: the result it passes on (\<open>None\<close> when \<^verbatim>\<open>forkJoin\<close>
  completes without a value, which it does when nothing came out for any record) and
  the error, if any.
\<close>

definition validate ::
  "'s env \<Rightarrow> ApiResult \<Rightarrow> jsval list \<Rightarrow> 's world \<Rightarrow> 's world \<times> jsval list option \<times> failure option" where
  "validate env result data w =
     (if data = [] then (w, Some data, None)
      else case validate_each env result data w of
        (w1, data1, emitted, Some e) \<Rightarrow> (w1, None, Some e)
      | (w1, data1, emitted, None) \<Rightarrow> (w1, if emitted then Some data1 else None, None))"

text \<open>
  Reading through a token: each result of the selector goes through the operators
  mapped over the token; a result an operator swallows is not delivered.
\<close>

fun apply_mapped ::
  "'s env \<Rightarrow> ApiResult list \<Rightarrow> jsval list \<Rightarrow> 's world \<Rightarrow> 's world \<times> jsval list option \<times> failure option" where
  "apply_mapped env [] data w = (w, Some data, None)"
| "apply_mapped env (result # results) data w =
     (case validate env result data w of
        (w1, Some data1, None) \<Rightarrow> apply_mapped env results data1 w1
      | (w1, out, err) \<Rightarrow> (w1, None, err))"

fun deliver ::
  "'s env \<Rightarrow> ApiResult list \<Rightarrow> jsval list list \<Rightarrow> 's world \<Rightarrow> 's world \<times> jsval list list \<times> failure option" where
  "deliver env results [] w = (w, [], None)"
| "deliver env results (data # later) w =
     (case apply_mapped env results data w of
        (w1, out, Some e) \<Rightarrow> (w1, [], Some e)
      | (w1, out, None) \<Rightarrow>
          (case deliver env results later w1 of
             (w2, outs, err) \<Rightarrow> (w2, (case out of None \<Rightarrow> outs | Some d \<Rightarrow> d # outs), err)))"

definition run_token ::
  "'s env \<Rightarrow> QueryToken \<Rightarrow> 's world \<Rightarrow> 's world \<times> jsval list list \<times> failure option" where
  "run_token env token w =
     (case run_selector env (selector token) [] w of
        (w1, outs, err) \<Rightarrow>
          (case deliver env (mapped token) outs w1 of
             (w2, delivered, Some e) \<Rightarrow> (w2, delivered, Some e)
           | (w2, delivered, None) \<Rightarrow> (w2, delivered, err)))"

subsection \<open>The drain\<close>

text \<open>One observable of the queue, subscribed.\<close>

definition run_queued :: "'s env \<Rightarrow> 's queued \<Rightarrow> 's world \<Rightarrow> 's world \<times> failure option" where
  "run_queued env p w =
     (case p of
        DbUpsert db tn v \<Rightarrow> exec_upsert env db tn v w
      | DbDelete db tn clause \<Rightarrow> exec_delete env db tn clause w
      | DirtyStream db dirtyStream \<Rightarrow> exec_dirty db dirtyStream w
      | SelectorDo token cacheControl \<Rightarrow>
          (case run_selector env (selector token) [ProxyNext cacheControl] w of
             (w1, outs, err) \<Rightarrow> (w1, err)))"

text \<open>
  The error handler of the \<^verbatim>\<open>tap\<close> in \<^verbatim>\<open>persist\<close> (lines 487-492):
  \<^verbatim>\<open>async (err) => { const errObj = await err.toPromise(); SDKLogger.error(errObj.message) }\<close>.
  What it sends to the logger: nothing for a plain error value, which has no
  \<^verbatim>\<open>toPromise\<close> (the handler's own promise rejects); for an observable of errors that
  completes, the message of the last error it emitted, and nothing when it emitted none
  (reading \<^verbatim>\<open>message\<close> of \<^verbatim>\<open>undefined\<close> throws); nothing when that observable fails.
\<close>

fun tap_error :: "failure \<Rightarrow> string list" where
  "tap_error (ErrorValue m) = []"
| "tap_error (ErrorObservable ms None) = (if ms = [] then [] else [last ms])"
| "tap_error (ErrorObservable ms (Some x)) = []"

text \<open>
  The observable \<^verbatim>\<open>persist\<close> returns, subscribed:
  \<^verbatim>\<open>Observable.from(asyncQueue).pipe(concatAll(), tap({ error }))\<close>. \<^verbatim>\<open>concatAll\<close>
  subscribes to the queued observables one after the other and ends at the first error;
  the \<^verbatim>\<open>tap\<close> runs its handler on that error and lets it through.
\<close>

fun run_queue :: "'s env \<Rightarrow> 's queued list \<Rightarrow> 's world \<Rightarrow> 's world \<times> failure option" where
  "run_queue env [] w = (w, None)"
| "run_queue env (p # ps) w =
     (case run_queued env p w of
        (w1, Some e) \<Rightarrow> (w1\<lparr>logged := logged w1 @ tap_error e\<rparr>, Some e)
      | (w1, None) \<Rightarrow> run_queue env ps w1)"

text \<open>Attaching a store and subscribing to what \<^verbatim>\<open>persist\<close> returns.\<close>

datatype drain_result = Thrown error | Ended "failure option"

definition attach :: "'s env \<Rightarrow> nat \<Rightarrow> 's world \<Rightarrow> 's world \<times> drain_result" where
  "attach env database_arg w =
     (case persist env database_arg (net w) of
        (n1, Inl e) \<Rightarrow> (w\<lparr>net := n1\<rparr>, Thrown e)
      | (n1, Inr asyncQueue) \<Rightarrow>
          (case run_queue env asyncQueue (w\<lparr>net := n1\<rparr>) of
             (w1, r) \<Rightarrow> (w1, Ended r)))"

text \<open>
  Subscribing to the pipeline of a write: the request is performed; each value it emits
  is buffered (no store yet) or sent to the store it was issued against.
\<close>

fun cud_emit_buffer :: "CUDApiResult \<Rightarrow> jsval list \<Rightarrow> 's world \<Rightarrow> 's world" where
  "cud_emit_buffer result [] w = w"
| "cud_emit_buffer result (v # vs) w =
     cud_emit_buffer result vs (w\<lparr>net := bufferCUD_emit result v (net w)\<rparr>)"

fun cud_emit_store ::
  "'s env \<Rightarrow> nat \<Rightarrow> CUDApiResult \<Rightarrow> jsval list \<Rightarrow> 's world \<Rightarrow> 's world \<times> failure option" where
  "cud_emit_store env db result [] w = (w, None)"
| "cud_emit_store env db result (v # vs) w =
     (case (case cud_method result of
              create \<Rightarrow> exec_upsert env db (cud_tableName result) v w
            | update \<Rightarrow> exec_upsert env db (cud_tableName result) v w
            | delete \<Rightarrow> exec_delete env db (cud_tableName result) (cud_clause result) w) of
        (w1, Some e) \<Rightarrow> (w1, Some e)
      | (w1, None) \<Rightarrow> cud_emit_store env db result vs w1)"

definition run_cud :: "'s env \<Rightarrow> cud_pipeline \<Rightarrow> 's world \<Rightarrow> 's world \<times> failure option" where
  "run_cud env pipeline w =
     (case pipeline of
        BufferOnEmit result \<Rightarrow>
          (cud_emit_buffer result (fst (snd (cud_request result)))
             (w\<lparr>trace := trace w @ [Fetch (fst (cud_request result))]\<rparr>),
           snd (snd (cud_request result)))
      | StoreOnEmit db result \<Rightarrow>
          (case cud_emit_store env db result (fst (snd (cud_request result)))
                  (w\<lparr>trace := trace w @ [Fetch (fst (cud_request result))]\<rparr>) of
             (w1, Some e) \<Rightarrow> (w1, Some e)
           | (w1, None) \<Rightarrow> (w1, snd (snd (cud_request result)))))"

section \<open>A reference store for the examples\<close>

text \<open>
  Modelled from the spec: the relational store is an external collaborator (sections 1
  and 6 of the specification), of which the engine needs \<open>read\<close>, \<open>upsert\<close> and
  \<open>delete\<close> keyed by table name. The examples run against this small one: a store is a
  list of named tables of records; upsert replaces the record with the same \<open>_id\<close> or
  adds it; delete removes the records that agree with every field of the clause's
  \<open>where\<close>; read returns the rows of the table; a call on a table the store does not
  have fails with a plain error value.
\<close>

type_synonym ref_store = "(string \<times> jsval list) list"

fun set_table :: "string \<Rightarrow> jsval list \<Rightarrow> ref_store \<Rightarrow> ref_store" where
  "set_table tn rows [] = []"
| "set_table tn rows ((tn', rows') # s) =
     (if tn' = tn then (tn, rows) # s else (tn', rows') # set_table tn rows s)"

fun upsert_row :: "jsval \<Rightarrow> jsval list \<Rightarrow> jsval list" where
  "upsert_row r [] = [r]"
| "upsert_row r (x # xs) =
     (if js_prop x ''_id'' = js_prop r ''_id'' then object_assign x r # xs
      else x # upsert_row r xs)"

definition ref_upsert :: "string \<Rightarrow> jsval \<Rightarrow> ref_store \<Rightarrow> failure + ref_store" where
  "ref_upsert tn v s =
     (case map_of s tn of
        None \<Rightarrow> Inl (ErrorValue (''table not found: '' @ tn))
      | Some rows \<Rightarrow>
          Inr (set_table tn (fold upsert_row (case v of JArr vs \<Rightarrow> vs | _ \<Rightarrow> [v]) rows) s))"

definition matches_where :: "jsval \<Rightarrow> jsval \<Rightarrow> bool" where
  "matches_where clause row =
     list_all (\<lambda>(k, v). js_prop row k = v) (spread (js_prop clause ''where''))"

definition ref_delete :: "string \<Rightarrow> jsval \<Rightarrow> ref_store \<Rightarrow> failure + ref_store" where
  "ref_delete tn clause s =
     (case map_of s tn of
        None \<Rightarrow> Inl (ErrorValue (''table not found: '' @ tn))
      | Some rows \<Rightarrow> Inr (set_table tn (filter (\<lambda>row. \<not> matches_where clause row) rows) s))"

definition ref_get :: "string \<Rightarrow> jsval \<Rightarrow> ref_store \<Rightarrow> failure + jsval list" where
  "ref_get tn q s =
     (case map_of s tn of
        None \<Rightarrow> Inl (ErrorValue (''table not found: '' @ tn))
      | Some rows \<Rightarrow> Inr rows)"

text \<open>A serialisation of the query for the cache key, and no dirty-field handlers.\<close>

fun ref_stringify :: "jsval \<Rightarrow> string" where
  "ref_stringify JUndefined = ''undefined''"
| "ref_stringify JNull = ''null''"
| "ref_stringify (JBool b) = (if b then ''true'' else ''false'')"
| "ref_stringify (JNum i) = dec_int i"
| "ref_stringify (JStr s) = ''\"'' @ s @ ''\"''"
| "ref_stringify (JArr vs) = ''['' @ join '','' (map ref_stringify vs) @ '']''"
| "ref_stringify (JObj kvs) =
     ''{'' @ join '','' (map (\<lambda>(k, v). ''\"'' @ k @ ''\":'' @ ref_stringify v) kvs) @ ''}''"

definition ref_env :: "ref_store env" where
  "ref_env =
     \<lparr>db_upsert = ref_upsert, db_delete = ref_delete, db_get = ref_get,
      JSON_stringify = ref_stringify,
      Dirty_handleSocketMessage = (\<lambda>id ty data. None)\<rparr>"

text \<open>The schema of the examples: a table \<open>tasks\<close> with primary key \<open>_id\<close>.\<close>

definition tasks_schema :: "(string \<times> (string \<times> bool \<times> bool) list) list" where
  "tasks_schema = [(''tasks'', [(''_id'', False, True), (''content'', False, False)])]"

definition world0 :: "Net \<Rightarrow> ref_store world" where
  "world0 n = \<lparr>net = n, stores = (\<lambda>db. [(''tasks'', [])]), trace = [], logged = []\<rparr>"

section \<open>What a run may change in the engine\<close>

text \<open>
  Running a pipeline changes the engine at most in its \<^verbatim>\<open>requestMap\<close>: the store
  reference, the schema tables, the buffer and the channels stay as they are.
\<close>

definition only_marks :: "Net \<Rightarrow> Net \<Rightarrow> bool" where
  "only_marks n n' =
     (database n' = database n \<and> fieldsMap n' = fieldsMap n \<and> primaryKeys n' = primaryKeys n
      \<and> persistedDataBuffer n' = persistedDataBuffer n \<and> subjects n' = subjects n)"

section \<open>Vocabulary of the properties\<close>

text \<open>
  A pending selector can be scheduled when its table is declared (otherwise
  \<^verbatim>\<open>getInfoFromResult\<close> throws inside \<^verbatim>\<open>persist\<close>); \<open>scheduled\<close> is what one buffered
  operation contributes to the queue; a push is materialized when its method is one of
  the four \<^verbatim>\<open>persist\<close> handles.
\<close>

definition can_schedule :: "Net \<Rightarrow> bufferObject \<Rightarrow> bool" where
  "can_schedule n v =
     (case v of Selector r c \<Rightarrow> fieldsMap n (tableName r) \<noteq> None | _ \<Rightarrow> True)"

definition scheduled :: "'s env \<Rightarrow> nat \<Rightarrow> Net \<Rightarrow> nat \<Rightarrow> bufferObject \<Rightarrow> 's queued list" where
  "scheduled env database_arg n this_db v =
     (case persist_each env database_arg n this_db v of Inl e \<Rightarrow> [] | Inr ps \<Rightarrow> ps)"

definition materializes :: "bufferObject \<Rightarrow> bool" where
  "materializes v =
     (case v of
        SocketCUD arg m pk ty \<Rightarrow> sm_method m \<in> set [''destroy'', ''remove'', ''new'', ''change'']
      | _ \<Rightarrow> True)"

definition this_database :: "nat \<Rightarrow> Net \<Rightarrow> nat" where
  "this_database database_arg n = (case database n of None \<Rightarrow> database_arg | Some d \<Rightarrow> d)"

fun is_write :: "'s queued \<Rightarrow> bool" where
  "is_write (SelectorDo token c) = False"
| "is_write p = True"

section \<open>The inputs of the examples\<close>

definition rowA :: jsval where
  "rowA = JObj [(''_id'', JStr ''A''), (''content'', JStr ''x'')]"

definition whereA :: jsval where
  "whereA = JObj [(''where'', JObj [(''_id'', JStr ''A'')])]"

text \<open>Two writes issued before a store is attached: create row A, then delete row A.\<close>

definition writeA :: CUDApiResult where
  "writeA = \<lparr>cud_request = (1, ([rowA], None)), cud_tableName = ''tasks'',
             cud_method = create, cud_clause = JUndefined\<rparr>"

definition deleteA :: CUDApiResult where
  "deleteA = \<lparr>cud_request = (2, ([JObj []], None)), cud_tableName = ''tasks'',
              cud_method = delete, cud_clause = whereA\<rparr>"

definition buffered_writes :: "ref_store world" where
  "buffered_writes =
     fst (run_cud ref_env (handleCUDAResult (Net_new tasks_schema) deleteA)
       (fst (run_cud ref_env (handleCUDAResult (Net_new tasks_schema) writeA)
          (world0 (Net_new tasks_schema)))))"

text \<open>A push whose method \<^verbatim>\<open>persist\<close> has no branch for.\<close>

definition refresh_push :: Net where
  "refresh_push =
     bufferSocketPush (Net_new tasks_schema) ''tasks''
       \<lparr>sm_id = ''1'', sm_method = ''refresh'', sm_data = JObj []\<rparr> ''_id'' (JStr ''task'')"

text \<open>A buffer whose first operation the store rejects, followed by a write it would accept.\<close>

definition rejected_then_write :: Net where
  "rejected_then_write =
     (Net_new tasks_schema)\<lparr>persistedDataBuffer :=
        [CUD ''nope'' m_delete whereA, CUD ''tasks'' m_upsert rowA]\<rparr>"

text \<open>A destroy push that carries the id as its payload.\<close>

definition destroy_by_payload :: Net where
  "destroy_by_payload =
     bufferSocketPush (Net_new tasks_schema) ''tasks''
       \<lparr>sm_id = [], sm_method = ''destroy'', sm_data = JStr ''42''\<rparr> ''_id'' (JStr ''task'')"

text \<open>A buffer whose first write fails in the store: the table is not one of its tables.\<close>

definition failing_first :: Net where
  "failing_first =
     (Net_new tasks_schema)\<lparr>persistedDataBuffer :=
        [CUD ''nope'' m_upsert rowA, CUD ''tasks'' m_upsert rowA]\<rparr>"

text \<open>A write to a table no schema declares.\<close>

definition write_undeclared :: CUDApiResult where
  "write_undeclared = \<lparr>cud_request = (3, ([rowA], None)), cud_tableName = ''nope'',
                       cud_method = create, cud_clause = JUndefined\<rparr>"

text \<open>Reads of the examples: a declared and an undeclared table.\<close>

definition read_tasks :: ApiResult where
  "read_tasks =
     \<lparr>request = (7, ([JArr [rowA]], None)), query = JObj [], tableName = ''tasks'',
      cacheValidate = Request, required = None, assocFields = JUndefined,
      excludeFields = [], padding = None\<rparr>"

definition read_undeclared :: ApiResult where
  "read_undeclared = read_tasks\<lparr>tableName := ''nope''\<rparr>"

section \<open>Vocabulary of the read properties\<close>

text \<open>
  The query a read is resolved with and its cache key, as \<^verbatim>\<open>handleRequestCache\<close> computes
  them; issuing a read on the attached engine and subscribing to the token at once.
\<close>

definition query_of :: "Net \<Rightarrow> ApiResult \<Rightarrow> jsval" where
  "query_of n r = (case getInfoFromResult n r of Inr (req, q, cv, tn) \<Rightarrow> q | Inl e \<Rightarrow> JUndefined)"

definition cache_key :: "'s env \<Rightarrow> Net \<Rightarrow> ApiResult \<Rightarrow> string" where
  "cache_key env n r = genCacheKey env (tableName r) (query_of n r)"

definition issue_and_read ::
  "'s env \<Rightarrow> ApiResult \<Rightarrow> 's world \<Rightarrow> ('s world \<times> jsval list list \<times> failure option) option" where
  "issue_and_read env r w =
     (case handleApiResult env (net w) r of
        Inr (n', Attached token) \<Rightarrow> Some (run_token env token (w\<lparr>net := n'\<rparr>))
      | _ \<Rightarrow> None)"

text \<open>In a trace, every marking of a cache key comes right after an upsert.\<close>

fun marks_follow_upserts :: "event list \<Rightarrow> bool" where
  "marks_follow_upserts [] = True"
| "marks_follow_upserts (MarkSeen k # es) = False"
| "marks_follow_upserts (Upsert d t v # MarkSeen k # es) = marks_follow_upserts es"
| "marks_follow_upserts (e # es) = marks_follow_upserts es"

text \<open>
  The engine of the examples once a store is attached, and a read of a record that lacks
  the required field \<open>content\<close>, with a padding function that supplies it, under each
  strategy.
\<close>

definition attached0 :: Net where
  "attached0 = (Net_new tasks_schema)\<lparr>database := Some 0\<rparr>"

definition read_padded :: "CacheStrategy \<Rightarrow> ApiResult" where
  "read_padded strategy =
     \<lparr>request = (9, ([JArr [JObj [(''_id'', JStr ''A'')]]], None)), query = JObj [],
      tableName = ''tasks'', cacheValidate = strategy, required = Some [''content''],
      assocFields = JUndefined, excludeFields = [],
      padding = Some (\<lambda>missedId. ([JObj [(''_id'', missedId), (''content'', JStr ''x'')]], None))\<rparr>"

section \<open>SDKFetch: requests in flight\<close>

text \<open>
  \<^verbatim>\<open>SDKFetch.get\<close>, lines 82-117, and the observable it caches. \<^verbatim>\<open>FetchStack\<close> maps
  \<^verbatim>\<open>urlWithQuery\<close> to the observable \<^verbatim>\<open>dist\<close> built at the first call for that key:

  \<^verbatim>\<open>Observable.defer(() => { const request = http.setUrl(urlWithTail).get();
       return request.send().pipe(publishReplay(1), refCount()) })
     .pipe(finalize(() => { SDKFetch.FetchStack.delete(urlWithQuery) }))\<close>

  An observable object is identified by the number of observables created before it.
  \<^verbatim>\<open>isEmptyObject\<close> (of \<^verbatim>\<open>utils\<close>, not among the source files) and the tail
  (\<^verbatim>\<open>SDKFetch.fetchTail || Date.now()\<close>) are parameters.
\<close>

record dist =
  dist_id :: nat
  dist_url :: string
  dist_key :: string

record fetch_state =
  FetchStack :: "string \<Rightarrow> dist option"
  created :: nat
  transport_calls :: "string list"
  in_flight :: "(nat \<times> dist) list"
  subscriptions :: nat

definition fetch_state0 :: fetch_state where
  "fetch_state0 =
     \<lparr>FetchStack = Map.empty, created = 0, transport_calls = [], in_flight = [],
      subscriptions = 0\<rparr>"

definition sdk_get ::
  "(jsval \<Rightarrow> bool) \<Rightarrow> string \<Rightarrow> string \<Rightarrow> jsval \<Rightarrow> fetch_state \<Rightarrow> dist option \<times> fetch_state" where
  "sdk_get isEmptyObject tail url q st =
     (let key = urlWithQuery url q;
          st1 = (if FetchStack st key = None
                 then (let urlWithTail =
                             (if truthy q \<and> \<not> isEmptyObject q
                              then key @ ''&_='' @ tail
                              else key @ ''?_='' @ tail)
                       in st\<lparr>FetchStack := (FetchStack st)(key \<mapsto>
                                 \<lparr>dist_id = created st, dist_url = urlWithTail, dist_key = key\<rparr>),
                             created := Suc (created st)\<rparr>)
                 else st)
      in (FetchStack st1 key, st1))"

text \<open>
  Subscribing to \<^verbatim>\<open>dist\<close>. \<^verbatim>\<open>defer\<close> calls its factory for each subscriber: the factory
  makes a new request observable with \<^verbatim>\<open>http.get()\<close> (cold: the transport is invoked when
  it is subscribed) and wraps it in a new \<^verbatim>\<open>publishReplay(1), refCount()\<close>, whose first and
  only subscriber is this one, so it connects to the request at once. The subscription
  is in flight until it ends.
\<close>

definition subscribe_dist :: "dist \<Rightarrow> fetch_state \<Rightarrow> nat \<times> fetch_state" where
  "subscribe_dist d st =
     (subscriptions st,
      st\<lparr>transport_calls := transport_calls st @ [dist_url d],
         in_flight := in_flight st @ [(subscriptions st, d)],
         subscriptions := Suc (subscriptions st)\<rparr>)"

text \<open>
  The end of a subscription (the response arrived and the stream completed, the request
  failed, or the subscriber left): \<^verbatim>\<open>finalize\<close> runs its callback, which deletes the
  entry of the key.
\<close>

definition finish_subscription :: "nat \<Rightarrow> fetch_state \<Rightarrow> fetch_state" where
  "finish_subscription sid st =
     (case map_of (in_flight st) sid of
        None \<Rightarrow> st
      | Some d \<Rightarrow>
          st\<lparr>in_flight := filter (\<lambda>(s, d'). s \<noteq> sid) (in_flight st),
             FetchStack := (FetchStack st)(dist_key d := None)\<rparr>)"

text \<open>The network calls in flight for a key.\<close>

definition in_flight_for :: "string \<Rightarrow> fetch_state \<Rightarrow> nat" where
  "in_flight_for key st = length (filter (\<lambda>(s, d). dist_key d = key) (in_flight st))"

text \<open>Two callers ask for the same resource and both subscribe before any response.\<close>

definition two_callers :: fetch_state where
  "two_callers =
     (let (d1, s1) = sdk_get (\<lambda>q. q = JObj []) ''1'' ''host/tasks'' JUndefined fetch_state0;
          (d2, s2) = sdk_get (\<lambda>q. q = JObj []) ''1'' ''host/tasks'' JUndefined s1
      in case (d1, d2) of
           (Some a, Some b) \<Rightarrow> snd (subscribe_dist b (snd (subscribe_dist a s2)))
         | _ \<Rightarrow> s2)"

section \<open>SDKFetch: the instance, its headers and options\<close>

text \<open>
  The headers and options of an SDKFetch are objects held by reference, so they live in
  a heap: a reference is an index into the heap and allocation appends to it. A property
  holds a plain value or a reference.
\<close>

datatype hval = Plain jsval | Ref nat

type_synonym hobject = "(string \<times> hval) list"

type_synonym heap = "hobject list"

fun hget :: "hobject \<Rightarrow> string \<Rightarrow> hval" where
  "hget [] k = Plain JUndefined"
| "hget ((k', v) # kvs) k = (if k' = k then v else hget kvs k)"

fun hset_prop :: "string \<Rightarrow> hval \<Rightarrow> hobject \<Rightarrow> hobject" where
  "hset_prop k v [] = [(k, v)]"
| "hset_prop k v ((k', v') # kvs) =
     (if k' = k then (k, v) # kvs else (k', v') # hset_prop k v kvs)"

text \<open>\<^verbatim>\<open>{...a, ...b}\<close> is \<open>hassign (hassign [] a) b\<close>.\<close>

definition hassign :: "hobject \<Rightarrow> hobject \<Rightarrow> hobject" where
  "hassign target src = fold (\<lambda>(k, v) t. hset_prop k v t) src target"

definition alloc :: "hobject \<Rightarrow> heap \<Rightarrow> nat \<times> heap" where
  "alloc ob h = (length h, h @ [ob])"

definition deref :: "heap \<Rightarrow> nat \<Rightarrow> hobject" where
  "deref h a = (if a < length h then h ! a else [])"

text \<open>Any change made to the object behind a reference: setting or deleting properties.\<close>

definition mutate :: "nat \<Rightarrow> (hobject \<Rightarrow> hobject) \<Rightarrow> heap \<Rightarrow> heap" where
  "mutate a f h = (if a < length h then h[a := f (h ! a)] else h)"

fun htruthy :: "hval \<Rightarrow> bool" where
  "htruthy (Ref a) = True"
| "htruthy (Plain v) = truthy v"

text \<open>
  The instance (lines 56-63); its fields carry the prefix \<open>sdk_\<close> here. The getters and
  setters, lines 199-233.
\<close>

record SDKFetch =
  sdk_apiHost :: string
  sdk_token :: string
  sdk_headers :: nat
  sdk_options :: nat

definition setAPIHost :: "string \<Rightarrow> SDKFetch \<Rightarrow> SDKFetch" where
  "setAPIHost host s = s\<lparr>sdk_apiHost := host\<rparr>"

definition setHeaders :: "nat \<Rightarrow> SDKFetch \<Rightarrow> SDKFetch" where
  "setHeaders hs s = s\<lparr>sdk_headers := hs\<rparr>"

definition getHeaders :: "SDKFetch \<Rightarrow> heap \<Rightarrow> nat \<times> heap" where
  "getHeaders s h = alloc (hassign [] (deref h (sdk_headers s))) h"

definition setToken :: "string \<Rightarrow> SDKFetch \<Rightarrow> SDKFetch" where
  "setToken t s = s\<lparr>sdk_token := t\<rparr>"

definition setOptions :: "nat \<Rightarrow> SDKFetch \<Rightarrow> SDKFetch" where
  "setOptions os s = s\<lparr>sdk_options := os\<rparr>"

definition getOptions :: "SDKFetch \<Rightarrow> heap \<Rightarrow> nat \<times> heap" where
  "getOptions s h = alloc (hassign [] (deref h (sdk_options s))) h"

text \<open>
  The part of \<^verbatim>\<open>Http\<close> (Http.ts, lines 133-235) a request sets up: \<^verbatim>\<open>_opts\<close> is a
  reference; \<^verbatim>\<open>defaultOpts\<close> makes a new options object with a new, empty headers object.
\<close>

record Http =
  http_url :: string
  http_opts :: nat
  http_includeHeaders :: bool

definition Http_new :: "bool \<Rightarrow> heap \<Rightarrow> Http \<times> heap" where
  "Http_new includeHeaders h =
     (let (hs, h1) = alloc [] h;
          (os, h2) = alloc [(''headers'', Ref hs), (''credentials'', Plain (JStr ''include''))] h1
      in (\<lparr>http_url = [], http_opts = os, http_includeHeaders = includeHeaders\<rparr>, h2))"

text \<open>The properties a spread copies from a property value.\<close>

definition spread_of :: "heap \<Rightarrow> hval \<Rightarrow> hobject" where
  "spread_of h v = (case v of Ref a \<Rightarrow> deref h a | Plain p \<Rightarrow> map (\<lambda>(k, x). (k, Plain x)) (spread p))"

text \<open>\<^verbatim>\<open>this._opts.headers = { ...this._opts.headers, ...headers }\<close>\<close>

definition Http_setHeaders :: "nat \<Rightarrow> Http \<Rightarrow> heap \<Rightarrow> heap" where
  "Http_setHeaders hs http h =
     (let cur = spread_of h (hget (deref h (http_opts http)) ''headers'');
          (a, h1) = alloc (hassign (hassign [] cur) (deref h hs)) h
      in mutate (http_opts http) (hset_prop ''headers'' (Ref a)) h1)"

text \<open>
  \<^verbatim>\<open>delete this._opts.credentials; this._opts.headers.Authorization = `OAuth2 ${token}`\<close>;
  the assignment throws when \<^verbatim>\<open>_opts.headers\<close> is not an object.
\<close>

definition Http_setToken :: "string \<Rightarrow> Http \<Rightarrow> heap \<Rightarrow> error option \<times> heap" where
  "Http_setToken t http h =
     (let h1 = mutate (http_opts http) (filter (\<lambda>(k, v). k \<noteq> ''credentials'')) h
      in case hget (deref h1 (http_opts http)) ''headers'' of
           Ref a \<Rightarrow>
             (None, mutate a (hset_prop ''Authorization'' (Plain (JStr (''OAuth2 '' @ t)))) h1)
         | Plain p \<Rightarrow> (Some (TypeError ''Cannot set property Authorization''), h1))"

text \<open>\<^verbatim>\<open>this._opts = { ...this._opts, ...opts }\<close>\<close>

definition Http_setOpts :: "nat \<Rightarrow> Http \<Rightarrow> heap \<Rightarrow> Http \<times> heap" where
  "Http_setOpts os http h =
     (let (a, h1) = alloc (hassign (hassign [] (deref h (http_opts http))) (deref h os)) h
      in (http\<lparr>http_opts := a\<rparr>, h1))"

text \<open>
  \<^verbatim>\<open>setOptionsPerRequest\<close>, lines 235-264, with \<^verbatim>\<open>getUnnamedOptions\<close>, lines 43-49. The
  per-request options are given by their properties; \<^verbatim>\<open>headers\<close>, when present, is an
  object (a reference). The three values the method computes first (the headers, the
  token, the other options) are named apart.
\<close>

definition named_options :: "string list" where
  "named_options = [''apiHost'', ''token'', ''headers'', ''wrapped'', ''includeHeaders'']"

definition per_request_headers :: "SDKFetch \<Rightarrow> hobject \<Rightarrow> heap \<Rightarrow> nat \<times> heap" where
  "per_request_headers s fetchOptions h =
     (case hget fetchOptions ''headers'' of
        Ref fh \<Rightarrow>
          (let (hdrs, h0) = alloc (filter (\<lambda>(k, v). k \<noteq> ''merge'') (deref h fh)) h
           in if htruthy (hget (deref h fh) ''merge'')
              then alloc (hassign (hassign [] (deref h0 (sdk_headers s))) (deref h0 hdrs)) h0
              else (hdrs, h0))
      | Plain p \<Rightarrow> (sdk_headers s, h))"

definition per_request_token :: "SDKFetch \<Rightarrow> hobject \<Rightarrow> string" where
  "per_request_token s fetchOptions =
     (case hget fetchOptions ''token'' of
        Plain (JStr x) \<Rightarrow> if x \<noteq> [] then x else sdk_token s
      | _ \<Rightarrow> sdk_token s)"

definition per_request_options :: "SDKFetch \<Rightarrow> hobject \<Rightarrow> heap \<Rightarrow> nat \<times> heap" where
  "per_request_options s fetchOptions h =
     (let (unnamed, h1) = alloc (filter (\<lambda>(k, v). k \<notin> set named_options) fetchOptions) h
      in (if deref h1 unnamed = [] then sdk_options s else unnamed, h1))"

definition setOptionsPerRequest ::
  "SDKFetch \<Rightarrow> Http \<Rightarrow> hobject \<Rightarrow> heap \<Rightarrow> error option \<times> Http \<times> heap" where
  "setOptionsPerRequest s http fetchOptions h =
     (case per_request_headers s fetchOptions h of
        (hs, h1) \<Rightarrow>
          (case per_request_options s fetchOptions h1 of
             (os, h2) \<Rightarrow>
               (let t = per_request_token s fetchOptions;
                    h3 = Http_setHeaders hs http h2
                in case (if t \<noteq> [] then Http_setToken t http h3 else (None, h3)) of
                     (Some e, h4) \<Rightarrow> (Some e, http, h4)
                   | (None, h4) \<Rightarrow>
                       (if deref h4 os \<noteq> []
                        then (case Http_setOpts os http h4 of (http1, h5) \<Rightarrow> (None, http1, h5))
                        else (None, http, h4)))))"

text \<open>
  The public methods as far as they touch the instance and the heap: \<^verbatim>\<open>get\<close>,
  \<^verbatim>\<open>post\<close>, \<^verbatim>\<open>put\<close> and \<^verbatim>\<open>delete\<close> each make a new \<^verbatim>\<open>Http\<close> and set it up from the
  per-request options (\<open>Send\<close>).
\<close>

datatype sdk_call =
    SetAPIHost string
  | GetAPIHost
  | SetHeaders nat
  | GetHeaders
  | SetToken string
  | GetToken
  | SetOptions nat
  | GetOptions
  | Send hobject

fun sdk_step :: "sdk_call \<Rightarrow> SDKFetch \<times> heap \<Rightarrow> SDKFetch \<times> heap" where
  "sdk_step (SetAPIHost host) (s, h) = (setAPIHost host s, h)"
| "sdk_step GetAPIHost (s, h) = (s, h)"
| "sdk_step (SetHeaders hs) (s, h) = (setHeaders hs s, h)"
| "sdk_step GetHeaders (s, h) = (s, snd (getHeaders s h))"
| "sdk_step (SetToken t) (s, h) = (setToken t s, h)"
| "sdk_step GetToken (s, h) = (s, h)"
| "sdk_step (SetOptions os) (s, h) = (setOptions os s, h)"
| "sdk_step GetOptions (s, h) = (s, snd (getOptions s h))"
| "sdk_step (Send fetchOptions) (s, h) =
     (case Http_new (htruthy (hget fetchOptions ''includeHeaders'')) h of
        (http, h1) \<Rightarrow> (s, snd (snd (setOptionsPerRequest s http fetchOptions h1))))"

text \<open>Two heaps agree below \<open>n\<close>: the objects allocated before are as they were.\<close>

definition same_below :: "nat \<Rightarrow> heap \<Rightarrow> heap \<Rightarrow> bool" where
  "same_below n h h' = (n \<le> length h \<and> n \<le> length h' \<and> take n h' = take n h)"

text \<open>An instance with the default headers and a token, and the heap that holds them.\<close>

definition sdk0 :: "SDKFetch \<times> heap" where
  "sdk0 =
     (\<lparr>sdk_apiHost = ''https://www.teambition.com/api'', sdk_token = ''t0'',
       sdk_headers = 0, sdk_options = 1\<rparr>,
      [[(''Accept'', Plain (JStr ''application/json'')),
        (''Content-Type'', Plain (JStr ''application/json''))],
       []])"

section \<open>Vocabulary of the drain, and late operations\<close>

text \<open>
  The first call a queued observable makes when it is subscribed, and the traces of a run
  of a queue, one per element: each is not empty and starts with that call, and the
  trace of a write is that one call.
\<close>

fun first_event :: "'s queued \<Rightarrow> event" where
  "first_event (DbUpsert db tn v) = Upsert db tn v"
| "first_event (DbDelete db tn clause) = Delete db tn clause"
| "first_event (DirtyStream db f) = DirtyMerge db"
| "first_event (SelectorDo token c) =
     (case selector token of
        FetchUpsertMarkGet req db tn q key \<Rightarrow> Fetch (fst req)
      | FetchUpsertGet req db tn q \<Rightarrow> Fetch (fst req)
      | StoreGet db tn q \<Rightarrow> Get db tn q)"

fun runs_of :: "'s queued list \<Rightarrow> event list list \<Rightarrow> bool" where
  "runs_of [] [] = True"
| "runs_of (p # ps) (seg # segs) =
     (seg \<noteq> [] \<and> hd seg = first_event p
      \<and> (if is_write p then seg = [first_event p] else True)
      \<and> runs_of ps segs)"
| "runs_of ps segs = False"

text \<open>
  A read and two writes issued before a store is attached: the read is buffered at once,
  the writes when their requests respond.
\<close>

definition buffered_read_and_writes :: "ref_store world" where
  "buffered_read_and_writes =
     (case lift ref_env (Net_new tasks_schema) (Read read_tasks) of
        Inl e \<Rightarrow> world0 (Net_new tasks_schema)
      | Inr (n1, handle) \<Rightarrow>
          fst (run_cud ref_env (handleCUDAResult n1 deleteA)
            (fst (run_cud ref_env (handleCUDAResult n1 writeA) (world0 n1)))))"

text \<open>
  A write issued before a store is attached whose request responds after the attachment,
  and a push buffered after the attachment.
\<close>

definition late_write :: "ref_store world" where
  "late_write =
     fst (run_cud ref_env (handleCUDAResult (Net_new tasks_schema) writeA)
       (fst (attach ref_env 0 (world0 (Net_new tasks_schema)))))"

definition late_push :: "ref_store world" where
  "late_push =
     (let w = fst (attach ref_env 0 (world0 (Net_new tasks_schema)))
      in w\<lparr>net := bufferSocketPush (net w) ''tasks''
                    \<lparr>sm_id = ''A'', sm_method = ''new'', sm_data = rowA\<rparr> ''_id'' (JStr ''task'')\<rparr>)"

section \<open>Properties of the URL builder\<close>

lemma push_array_vals_eq:
  "push_array_vals key vs result = result @ spec_pairs key (JArr vs)"
  by (induction vs arbitrary: result) (simp_all add: spec_pairs_def)

lemma spec_pairs_scalar:
  "\<forall>vs. val \<noteq> JArr vs \<Longrightarrow> val \<noteq> JUndefined \<Longrightarrow> spec_pairs key val = [key @ ''='' @ toString val]"
  by (cases val) (simp_all add: spec_pairs_def)

lemma buildQuery_loop_eq:
  "buildQuery_loop q (result, warns) =
     (result @ spec_params q,
      warns @ replicate (length (filter (\<lambda>(k, v). k = ''_'') q)) warn_underscore)"
proof (induction q arbitrary: result warns)
  case Nil
  show ?case by (simp add: spec_params_def)
next
  case (Cons kv q)
  obtain key val where kv: "kv = (key, val)" by (cases kv)
  show ?case
  proof (cases "key = ''_''")
    case True
    with kv Cons show ?thesis
      by (simp add: spec_params_def replicate_append_same)
  next
    case False
    have step: "spec_params ((key, val) # q) = spec_pairs key val @ spec_params q"
      using False by (simp add: spec_params_def)
    show ?thesis
    proof (cases val)
      case (JArr vs)
      with kv False Cons step show ?thesis
        by (simp add: push_array_vals_eq)
    next
      case JUndefined
      with kv False Cons step show ?thesis
        by (simp add: spec_pairs_def)
    qed (use kv False Cons step in \<open>simp_all add: spec_pairs_def\<close>)
  qed
qed

text \<open>
  C10. For every query object, the URL \<^verbatim>\<open>_buildQuery\<close> returns (and \<^verbatim>\<open>get\<close> uses as
  \<^verbatim>\<open>urlWithQuery\<close>) is the one the specification words: entries with the key \<open>_\<close>
  contribute nothing and each costs one warning, an undefined value contributes
  nothing, an array value contributes one \<open>key=value\<close> per defined element, and the
  parameters are appended after \<open>&\<close> when the URL already holds a \<open>?\<close> and after
  \<open>?\<close> otherwise. In particular the result does not depend on the entries keyed \<open>_\<close>.
\<close>

theorem buildQuery_drops_underscore_and_undefined:
  "buildQuery url (JObj q) =
     (spec_buildQuery url q,
      replicate (length (filter (\<lambda>(k, v). k = ''_'') q)) warn_underscore)
   \<and> urlWithQuery url (JObj q) = spec_buildQuery url q
   \<and> fst (buildQuery url (JObj q)) =
       fst (buildQuery url (JObj (filter (\<lambda>(k, v). k \<noteq> ''_'') q)))
   \<and> spec_pairs key JUndefined = []
   \<and> spec_pairs key (JArr vs) =
       map (\<lambda>v. key @ ''='' @ toString v) (filter (\<lambda>v. v \<noteq> JUndefined) vs)"
proof -
  have a: "buildQuery url (JObj q) =
     (spec_buildQuery url q,
      replicate (length (filter (\<lambda>(k, v). k = ''_'') q)) warn_underscore)" for q
    by (simp add: buildQuery_def buildQuery_loop_eq spec_buildQuery_def)
  have b: "spec_params (filter (\<lambda>(k, v). k \<noteq> ''_'') q) = spec_params q"
    by (simp add: spec_params_def)
  have c: "spec_buildQuery url (filter (\<lambda>(k, v). k \<noteq> ''_'') q) = spec_buildQuery url q"
    by (simp add: spec_buildQuery_def b)
  show ?thesis
    by (simp add: a c urlWithQuery_def spec_pairs_def)
qed

section \<open>Running a pipeline: what stays the same\<close>

lemma only_marks_refl: "only_marks n n" by (simp add: only_marks_def)
lemma only_marks_trans: "only_marks a b \<Longrightarrow> only_marks b c \<Longrightarrow> only_marks a c"
  by (simp add: only_marks_def)

lemma exec_upsert_frame:
  "exec_upsert env db tn v w = (w1, r) \<Longrightarrow>
     net w1 = net w \<and> logged w1 = logged w \<and> trace w1 = trace w @ [Upsert db tn v]"
  by (auto simp: exec_upsert_def Let_def split: sum.splits)

lemma exec_delete_frame:
  "exec_delete env db tn v w = (w1, r) \<Longrightarrow>
     net w1 = net w \<and> logged w1 = logged w \<and> trace w1 = trace w @ [Delete db tn v]"
  by (auto simp: exec_delete_def Let_def split: sum.splits)

lemma exec_dirty_frame:
  "exec_dirty db f w = (w1, r) \<Longrightarrow>
     net w1 = net w \<and> logged w1 = logged w \<and> trace w1 = trace w @ [DirtyMerge db]"
  by (auto simp: exec_dirty_def Let_def split: sum.splits)

lemma exec_get_frame:
  "exec_get env db tn q w = (w1, r) \<Longrightarrow>
     net w1 = net w \<and> logged w1 = logged w \<and> stores w1 = stores w \<and> trace w1 = trace w @ [Get db tn q]"
  by (auto simp: exec_get_def)

lemma request_pipe_frame:
  "request_pipe env mark db tn q notify vs w = (w', out, err) \<Longrightarrow>
     only_marks (net w) (net w') \<and> logged w' = logged w"
proof (induction vs arbitrary: w w' out err)
  case Nil
  then show ?case by (simp add: only_marks_def)
next
  case (Cons v vs)
  obtain w1 r1 where u: "exec_upsert env db tn v w = (w1, r1)" by (cases "exec_upsert env db tn v w")
  note f1 = exec_upsert_frame[OF u]
  show ?case
  proof (cases r1)
    case (Some e)
    with Cons.prems u f1 show ?thesis by (simp add: only_marks_def)
  next
    case None
    define w2 where "w2 = (case mark of None \<Rightarrow> w1
                     | Some cacheKey \<Rightarrow>
                         w1\<lparr>net := (net w1)\<lparr>requestMap := (requestMap (net w1))(cacheKey \<mapsto> True)\<rparr>,
                            trace := trace w1 @ [MarkSeen cacheKey]\<rparr>)"
    have f2: "only_marks (net w) (net w2) \<and> logged w2 = logged w"
      using f1 by (simp add: w2_def only_marks_def split: option.splits)
    obtain w3 r3 where g: "exec_get env db tn q w2 = (w3, r3)" by (cases "exec_get env db tn q w2")
    note f3 = exec_get_frame[OF g]
    show ?thesis
    proof (cases r3)
      case (Inl e)
      with Cons.prems u None g f2 f3 show ?thesis
        by (simp add: w2_def[symmetric])
    next
      case (Inr rows)
      obtain w4 out4 err4 where r: "request_pipe env mark db tn q notify vs (w3\<lparr>trace := trace w3 @ notify\<rparr>) = (w4, out4, err4)"
        by (cases "request_pipe env mark db tn q notify vs (w3\<lparr>trace := trace w3 @ notify\<rparr>)") auto
      from Cons.IH[OF r] have "only_marks (net w3) (net w4) \<and> logged w4 = logged w3" by simp
      moreover from Cons.prems u None g Inr r have "w' = w4" by (simp add: w2_def[symmetric])
      ultimately show ?thesis using f2 f3 by (auto simp: only_marks_def)
    qed
  qed
qed

lemma run_selector_frame:
  "run_selector env src notify w = (w', out, err) \<Longrightarrow>
     only_marks (net w) (net w') \<and> logged w' = logged w"
proof (cases src)
  case (FetchUpsertMarkGet req db tn q key)
  assume a: "run_selector env src notify w = (w', out, err)"
  obtain w1 o1 e1 where r: "request_pipe env (Some key) db tn q notify (fst (snd req)) (w\<lparr>trace := trace w @ [Fetch (fst req)]\<rparr>) = (w1, o1, e1)"
    by (cases "request_pipe env (Some key) db tn q notify (fst (snd req)) (w\<lparr>trace := trace w @ [Fetch (fst req)]\<rparr>)") auto
  from a r FetchUpsertMarkGet have "w' = w1" by (auto simp: run_selector_def split: option.splits)
  with request_pipe_frame[OF r] show ?thesis by simp
next
  case (FetchUpsertGet req db tn q)
  assume a: "run_selector env src notify w = (w', out, err)"
  obtain w1 o1 e1 where r: "request_pipe env None db tn q notify (fst (snd req)) (w\<lparr>trace := trace w @ [Fetch (fst req)]\<rparr>) = (w1, o1, e1)"
    by (cases "request_pipe env None db tn q notify (fst (snd req)) (w\<lparr>trace := trace w @ [Fetch (fst req)]\<rparr>)") auto
  from a r FetchUpsertGet have "w' = w1" by (auto simp: run_selector_def split: option.splits)
  with request_pipe_frame[OF r] show ?thesis by simp
next
  case (StoreGet db tn q)
  assume a: "run_selector env src notify w = (w', out, err)"
  then show ?thesis using StoreGet
    by (auto simp: run_selector_def exec_get_def only_marks_def split: sum.splits)
qed

lemma run_queued_frame:
  "run_queued env p w = (w', r) \<Longrightarrow> only_marks (net w) (net w') \<and> logged w' = logged w"
proof (cases p)
  case (SelectorDo token c)
  assume a: "run_queued env p w = (w', r)"
  obtain w1 o1 e1 where s: "run_selector env (selector token) [ProxyNext c] w = (w1, o1, e1)"
    by (cases "run_selector env (selector token) [ProxyNext c] w") auto
  with a SelectorDo have "w' = w1" by (simp add: run_queued_def)
  with run_selector_frame[OF s] show ?thesis by simp
qed (auto simp: run_queued_def only_marks_def dest: exec_upsert_frame exec_delete_frame exec_dirty_frame)

lemma run_queue_frame:
  "run_queue env ps w = (w', r) \<Longrightarrow>
     only_marks (net w) (net w') \<and> logged w' = logged w @ (case r of None \<Rightarrow> [] | Some e \<Rightarrow> tap_error e)"
proof (induction ps arbitrary: w)
  case Nil
  then show ?case by (auto simp: only_marks_def)
next
  case (Cons p ps)
  obtain w1 r1 where q: "run_queued env p w = (w1, r1)" by (cases "run_queued env p w")
  note f = run_queued_frame[OF q]
  show ?case
  proof (cases r1)
    case None
    with Cons.prems q have "run_queue env ps w1 = (w', r)" by simp
    from Cons.IH[OF this] f show ?thesis by (auto simp: only_marks_def)
  next
    case (Some e)
    with Cons.prems q f show ?thesis by (auto simp: only_marks_def)
  qed
qed

lemma run_queue_append:
  "run_queue env (xs @ ys) w =
     (case run_queue env xs w of
        (w1, Some e) \<Rightarrow> (w1, Some e)
      | (w1, None) \<Rightarrow> run_queue env ys w1)"
  by (induction xs arbitrary: w) (auto split: prod.splits option.splits)

section \<open>Attaching the store: what is scheduled, and how the queue runs\<close>

lemma getInfoFromResult_database:
  "getInfoFromResult (n\<lparr>database := x\<rparr>) r = getInfoFromResult n r"
  by (simp add: getInfoFromResult_def)

lemma handleRequestCache_database:
  "handleRequestCache env (n\<lparr>database := x\<rparr>) db r = handleRequestCache env n db r"
  by (simp add: handleRequestCache_def getInfoFromResult_database split: sum.splits prod.splits)

lemma persist_each_database:
  "persist_each env d (n\<lparr>database := x\<rparr>) db v = persist_each env d n db v"
  by (cases v) (simp_all add: persist_each_def handleRequestCache_database)

lemma persist_loop_database:
  "persist_loop env d (n\<lparr>database := x\<rparr>) db vs acc = persist_loop env d n db vs acc"
  by (induction vs arbitrary: acc) (simp_all add: persist_each_database split: sum.splits)

lemma can_schedule_Inr:
  "can_schedule n v \<Longrightarrow> persist_each env d n db v = Inr (scheduled env d n db v)"
proof (cases v)
  case (Selector r c)
  assume "can_schedule n v"
  with Selector obtain fs where "fieldsMap n (tableName r) = Some fs"
    by (auto simp: can_schedule_def)
  then show ?thesis using Selector
    by (simp add: scheduled_def persist_each_def handleRequestCache_def getInfoFromResult_def
        Let_def split: CacheStrategy.splits)
next
  case (CUD tn m val)
  then show ?thesis by (simp add: scheduled_def persist_each_def)
next
  case (SocketCUD arg m pk ty)
  then show ?thesis by (simp add: scheduled_def persist_each_def split: option.splits)
qed

lemma scheduled_length:
  "can_schedule n v \<Longrightarrow> length (scheduled env d n db v) = (if materializes v then 1 else 0)"
proof (cases v)
  case (Selector r c)
  assume "can_schedule n v"
  with Selector obtain fs where "fieldsMap n (tableName r) = Some fs"
    by (auto simp: can_schedule_def)
  then show ?thesis using Selector
    by (simp add: scheduled_def persist_each_def handleRequestCache_def getInfoFromResult_def
        materializes_def Let_def split: CacheStrategy.splits)
next
  case (CUD tn m val)
  then show ?thesis by (simp add: scheduled_def persist_each_def materializes_def)
next
  case (SocketCUD arg m pk ty)
  then show ?thesis
    by (simp add: scheduled_def persist_each_def materializes_def split: option.splits)
qed

lemma persist_loop_scheduled:
  "list_all (can_schedule n) vs \<Longrightarrow>
     persist_loop env d n db vs acc = Inr (acc @ concat (map (scheduled env d n db) vs))"
  by (induction vs arbitrary: acc) (simp_all add: can_schedule_Inr)

lemma persist_scheduled:
  assumes "list_all (can_schedule n) (persistedDataBuffer n)"
  shows "persist env d n =
           (n\<lparr>database := Some (this_database d n), persistedDataBuffer := []\<rparr>,
            Inr (concat (map (scheduled env d n (this_database d n)) (persistedDataBuffer n))))"
proof (cases "database n")
  case None
  then show ?thesis using assms
    by (simp add: persist_def this_database_def persist_loop_database persist_loop_scheduled)
next
  case (Some d0)
  then show ?thesis using assms
    by (simp add: persist_def this_database_def persist_loop_scheduled)
qed

lemma persist_database:
  "database (fst (persist env d n)) = Some (this_database d n)"
  by (simp add: persist_def this_database_def Let_def split: option.splits sum.splits)

lemma persist_clears_buffer:
  "snd (persist env d n) = Inr q \<Longrightarrow> persistedDataBuffer (fst (persist env d n)) = []"
  by (auto simp: persist_def Let_def split: option.splits sum.splits)

lemma run_queue_stops:
  assumes "run_queue env xs w = (w1, None)" and "run_queued env p w1 = (w2, Some e)"
  shows "run_queue env (xs @ p # ys) w = (w2\<lparr>logged := logged w2 @ tap_error e\<rparr>, Some e)"
  using assms by (simp add: run_queue_append)

lemmas ex_defs = Net_new_def tasks_schema_def world0_def ref_env_def ref_upsert_def ref_delete_def
  ref_get_def matches_where_def rowA_def handleCUDAResult_def run_cud_def bufferCUD_emit_def
  bufferSocketPush_def persist_def persist_each_def attach_def run_queued_def exec_upsert_def
  exec_delete_def assign_props_def

lemma get_prop_set_prop:
  "get_prop (set_prop k v kvs) k' = (if k' = k then v else get_prop kvs k')"
  by (induction kvs) auto

lemma persist_on_empty:
  "persistedDataBuffer m = [] \<Longrightarrow> database m = Some d0 \<Longrightarrow> persist env d' m = (m, Inr [])"
  by (simp add: persist_def)

lemma attach_upsert_then_delete:
  assumes "database (net w) = None"
    and "persistedDataBuffer (net w) = [CUD tn m_upsert a, CUD tn m_delete c]"
    and "db_upsert env tn a (stores w d) = Inr s1"
    and "db_delete env tn c s1 = Inr s2"
  shows "attach env d w =
           (w\<lparr>net := (net w)\<lparr>database := Some d, persistedDataBuffer := []\<rparr>,
              stores := (stores w)(d := s2),
              trace := trace w @ [Upsert d tn a, Delete d tn c]\<rparr>, Ended None)"
  using assms
  by (simp add: attach_def persist_def persist_each_def run_queued_def exec_upsert_def
      exec_delete_def)

lemma request_pipe_grows:
  "request_pipe env mark db tn q notify vs w = (w', out, err) \<Longrightarrow> \<exists>evs. trace w' = trace w @ evs"
proof (induction vs arbitrary: w w' out err)
  case Nil
  then show ?case by simp
next
  case (Cons v vs)
  obtain w1 r1 where u: "exec_upsert env db tn v w = (w1, r1)" by (cases "exec_upsert env db tn v w")
  note f1 = exec_upsert_frame[OF u]
  show ?case
  proof (cases r1)
    case (Some e)
    with Cons.prems u f1 show ?thesis by simp
  next
    case None
    define w2 where "w2 = (case mark of None \<Rightarrow> w1
                     | Some cacheKey \<Rightarrow>
                         w1\<lparr>net := (net w1)\<lparr>requestMap := (requestMap (net w1))(cacheKey \<mapsto> True)\<rparr>,
                            trace := trace w1 @ [MarkSeen cacheKey]\<rparr>)"
    have f2: "\<exists>evs. trace w2 = trace w @ evs"
      using f1 by (simp add: w2_def split: option.splits)
    obtain w3 r3 where g: "exec_get env db tn q w2 = (w3, r3)" by (cases "exec_get env db tn q w2")
    note f3 = exec_get_frame[OF g]
    show ?thesis
    proof (cases r3)
      case (Inl e)
      with Cons.prems u None g have "w' = w3" by (simp add: w2_def[symmetric])
      with f2 f3 show ?thesis by auto
    next
      case (Inr rows)
      obtain w4 out4 err4 where
        r: "request_pipe env mark db tn q notify vs (w3\<lparr>trace := trace w3 @ notify\<rparr>) = (w4, out4, err4)"
        by (cases "request_pipe env mark db tn q notify vs (w3\<lparr>trace := trace w3 @ notify\<rparr>)") auto
      from Cons.IH[OF r] obtain evs where "trace w4 = (trace w3 @ notify) @ evs" by auto
      moreover from Cons.prems u None g Inr r have "w' = w4" by (simp add: w2_def[symmetric])
      ultimately show ?thesis using f2 f3 by auto
    qed
  qed
qed

lemma run_selector_segment:
  assumes "run_selector env (selector token) notify w = (w', out, err)"
  shows "\<exists>seg. trace w' = trace w @ seg \<and> seg \<noteq> [] \<and> hd seg = first_event (SelectorDo token c)"
proof (cases "selector token")
  case (FetchUpsertMarkGet req db tn q key)
  obtain w1 o1 e1 where r: "request_pipe env (Some key) db tn q notify (fst (snd req))
        (w\<lparr>trace := trace w @ [Fetch (fst req)]\<rparr>) = (w1, o1, e1)"
    by (cases "request_pipe env (Some key) db tn q notify (fst (snd req))
        (w\<lparr>trace := trace w @ [Fetch (fst req)]\<rparr>)") auto
  with assms FetchUpsertMarkGet have "w' = w1" by (auto simp: run_selector_def split: option.splits)
  moreover from request_pipe_grows[OF r] obtain evs where
    "trace w1 = trace w @ Fetch (fst req) # evs" by auto
  ultimately show ?thesis using FetchUpsertMarkGet by simp
next
  case (FetchUpsertGet req db tn q)
  obtain w1 o1 e1 where r: "request_pipe env None db tn q notify (fst (snd req))
        (w\<lparr>trace := trace w @ [Fetch (fst req)]\<rparr>) = (w1, o1, e1)"
    by (cases "request_pipe env None db tn q notify (fst (snd req))
        (w\<lparr>trace := trace w @ [Fetch (fst req)]\<rparr>)") auto
  with assms FetchUpsertGet have "w' = w1" by (auto simp: run_selector_def split: option.splits)
  moreover from request_pipe_grows[OF r] obtain evs where
    "trace w1 = trace w @ Fetch (fst req) # evs" by auto
  ultimately show ?thesis using FetchUpsertGet by simp
next
  case (StoreGet db tn q)
  with assms have "trace w' = trace w @ [Get db tn q] \<or> trace w' = trace w @ Get db tn q # notify"
    by (auto simp: run_selector_def exec_get_def split: sum.splits)
  then show ?thesis using StoreGet by auto
qed

lemma run_queued_segment:
  assumes "run_queued env p w = (w', r)"
  shows "\<exists>seg. trace w' = trace w @ seg \<and> seg \<noteq> [] \<and> hd seg = first_event p
            \<and> (if is_write p then seg = [first_event p] else True)"
proof (cases p)
  case (SelectorDo token c)
  obtain w1 o1 e1 where s: "run_selector env (selector token) [ProxyNext c] w = (w1, o1, e1)"
    by (cases "run_selector env (selector token) [ProxyNext c] w") auto
  with assms SelectorDo have "w' = w1" by (simp add: run_queued_def)
  with run_selector_segment[OF s, of c] SelectorDo show ?thesis by simp
next
  case (DbUpsert db tn v)
  with assms show ?thesis by (auto simp: run_queued_def dest: exec_upsert_frame)
next
  case (DbDelete db tn v)
  with assms show ?thesis by (auto simp: run_queued_def dest: exec_delete_frame)
next
  case (DirtyStream db f)
  with assms show ?thesis by (auto simp: run_queued_def dest: exec_dirty_frame)
qed

lemma run_queue_segments:
  "run_queue env q w = (w', r) \<Longrightarrow>
     \<exists>k segs. k \<le> length q \<and> runs_of (take k q) segs \<and> trace w' = trace w @ concat segs
        \<and> (r = None \<longrightarrow> k = length q)"
proof (induction q arbitrary: w)
  case Nil
  then show ?case by (intro exI[of _ 0] exI[of _ "[]"]) simp
next
  case (Cons p ps)
  obtain w1 r1 where q: "run_queued env p w = (w1, r1)" by (cases "run_queued env p w")
  from run_queued_segment[OF q] obtain seg where
    seg: "trace w1 = trace w @ seg" "seg \<noteq> []" "hd seg = first_event p"
         "if is_write p then seg = [first_event p] else True"
    by blast
  show ?case
  proof (cases r1)
    case None
    with Cons.prems q have "run_queue env ps w1 = (w', r)" by simp
    from Cons.IH[OF this] obtain k segs where
      k: "k \<le> length ps" "runs_of (take k ps) segs" "trace w' = trace w1 @ concat segs"
         "r = None \<longrightarrow> k = length ps"
      by blast
    show ?thesis
      by (intro exI[of _ "Suc k"] exI[of _ "seg # segs"]) (use k seg in simp)
  next
    case (Some e)
    with Cons.prems q have "w' = w1\<lparr>logged := logged w1 @ tap_error e\<rparr>" "r = Some e"
      by simp_all
    then have "trace w' = trace w1" "r = Some e" by simp_all
    then show ?thesis
      by (intro exI[of _ "Suc 0"] exI[of _ "[seg]"]) (use seg in simp)
  qed
qed

lemma scheduled_contents:
  "scheduled env d n db (CUD tn m_upsert v) = [DbUpsert d tn v]
   \<and> scheduled env d n db (CUD tn m_delete v) = [DbDelete d tn v]
   \<and> (handleRequestCache env n db r = Inr token \<longrightarrow>
        scheduled env d n db (Selector r c) = [SelectorDo token c])"
  by (simp add: scheduled_def persist_each_def)

lemma run_queued_selector_get:
  "run_queued env (SelectorDo \<lparr>selector = StoreGet db tn q, mapped = rs\<rparr> c) w =
     (case db_get env tn q (stores w db) of
        Inl e \<Rightarrow> (w\<lparr>trace := trace w @ [Get db tn q]\<rparr>, Some e)
      | Inr rows \<Rightarrow> (w\<lparr>trace := trace w @ [Get db tn q, ProxyNext c]\<rparr>, None))"
  by (simp add: run_queued_def run_selector_def exec_get_def split: sum.splits)

lemma run_queued_selector_fetch:
  "db_upsert env tn v (stores w db) = Inr s1 \<Longrightarrow> db_get env tn q s1 = Inr rows \<Longrightarrow>
     run_queued env
       (SelectorDo \<lparr>selector = FetchUpsertMarkGet (rid, ([v], None)) db tn q key,
                    mapped = rs\<rparr> c) w =
       (w\<lparr>net := (net w)\<lparr>requestMap := (requestMap (net w))(key \<mapsto> True)\<rparr>,
          stores := (stores w)(db := s1),
          trace := trace w @ [Fetch rid, Upsert db tn v, MarkSeen key, Get db tn q,
                               ProxyNext c]\<rparr>,
        None)
     \<and> run_queued env
       (SelectorDo \<lparr>selector = FetchUpsertGet (rid, ([v], None)) db tn q, mapped = rs\<rparr> c) w =
       (w\<lparr>stores := (stores w)(db := s1),
          trace := trace w @ [Fetch rid, Upsert db tn v, Get db tn q, ProxyNext c]\<rparr>,
        None)"
  by (simp add: run_queued_def run_selector_def exec_upsert_def exec_get_def)

lemma can_schedule_selector:
  "can_schedule n (Selector r c) \<Longrightarrow>
     \<exists>token. handleRequestCache env n db r = Inr token
        \<and> scheduled env d n db (Selector r c) = [SelectorDo token c]"
proof -
  assume "can_schedule n (Selector r c)"
  then obtain fs where "fieldsMap n (tableName r) = Some fs"
    by (auto simp: can_schedule_def)
  then have "\<exists>token. handleRequestCache env n db r = Inr token"
    by (cases "cacheValidate r")
       (simp_all add: handleRequestCache_def getInfoFromResult_def Let_def)
  then show ?thesis by (auto simp: scheduled_def persist_each_def)
qed

section \<open>Draining the buffer\<close>

text \<open>
  C5 (as amended). For every buffer whose pending selectors are on declared tables,
  \<^verbatim>\<open>persist\<close> attaches the store, clears the buffer and queues, in insertion order, what
  each buffered operation contributes: for a write the one store call it carries, for a
  pending selector the one token \<^verbatim>\<open>handleRequestCache\<close> builds for it, forwarding to
  its own channel, for a push whose method is destroy, remove, new or change one
  observable, and nothing for a push with any other method. A second \<^verbatim>\<open>persist\<close> queues
  nothing. The queue runs front to back (a run of \<open>xs @ ys\<close> is the run of \<open>xs\<close>
  followed, unless it failed, by the run of \<open>ys\<close>); when its run ends, the trace is that
  of a front part of the queue, element by element in order: one call for a write, for a
  selector a trace that starts with its request or its store read; and it is that of the
  whole queue when the run ended without error. A drained selector whose request
  responds once and whose store calls succeed makes its fetch, its upsert, the marking
  of its key when the strategy has one, its store read, and hands the selector to its
  channel. An upsert of a row followed by a delete, buffered in that order, leaves the
  store as the delete leaves the store the upsert produced.
\<close>

theorem drain_schedules_in_insertion_order:
  assumes "list_all (can_schedule n) (persistedDataBuffer n)"
  shows "persist env d n =
           (n\<lparr>database := Some (this_database d n), persistedDataBuffer := []\<rparr>,
            Inr (concat (map (scheduled env d n (this_database d n)) (persistedDataBuffer n))))
       \<and> list_all (\<lambda>v. length (scheduled env d n (this_database d n) v)
                            = (if materializes v then 1 else 0)) (persistedDataBuffer n)
       \<and> (\<forall>tn v. scheduled env d n (this_database d n) (CUD tn m_upsert v) = [DbUpsert d tn v]
                 \<and> scheduled env d n (this_database d n) (CUD tn m_delete v) = [DbDelete d tn v])
       \<and> (\<forall>r c. can_schedule n (Selector r c) \<longrightarrow>
             (\<exists>token. handleRequestCache env n (this_database d n) r = Inr token
                \<and> scheduled env d n (this_database d n) (Selector r c) = [SelectorDo token c]))
       \<and> snd (persist env d' (fst (persist env d n))) = Inr []
       \<and> (\<forall>xs ys w. run_queue env (xs @ ys) w =
             (case run_queue env xs w of
                (w1, Some e) \<Rightarrow> (w1, Some e)
              | (w1, None) \<Rightarrow> run_queue env ys w1))
       \<and> (\<forall>q w w' r. run_queue env q w = (w', r) \<longrightarrow>
             (\<exists>k segs. k \<le> length q \<and> runs_of (take k q) segs
                \<and> trace w' = trace w @ concat segs \<and> (r = None \<longrightarrow> k = length q)))
       \<and> (\<forall>db tn q rs c w.
             run_queued env (SelectorDo \<lparr>selector = StoreGet db tn q, mapped = rs\<rparr> c) w =
               (case db_get env tn q (stores w db) of
                  Inl e \<Rightarrow> (w\<lparr>trace := trace w @ [Get db tn q]\<rparr>, Some e)
                | Inr rows \<Rightarrow> (w\<lparr>trace := trace w @ [Get db tn q, ProxyNext c]\<rparr>, None)))
       \<and> (\<forall>db tn q rs c w v s1 rows rid key.
             db_upsert env tn v (stores w db) = Inr s1 \<longrightarrow> db_get env tn q s1 = Inr rows \<longrightarrow>
             run_queued env
               (SelectorDo \<lparr>selector = FetchUpsertMarkGet (rid, ([v], None)) db tn q key,
                            mapped = rs\<rparr> c) w =
               (w\<lparr>net := (net w)\<lparr>requestMap := (requestMap (net w))(key \<mapsto> True)\<rparr>,
                  stores := (stores w)(db := s1),
                  trace := trace w @ [Fetch rid, Upsert db tn v, MarkSeen key, Get db tn q,
                                       ProxyNext c]\<rparr>,
                None)
             \<and> run_queued env
               (SelectorDo \<lparr>selector = FetchUpsertGet (rid, ([v], None)) db tn q, mapped = rs\<rparr> c) w =
               (w\<lparr>stores := (stores w)(db := s1),
                  trace := trace w @ [Fetch rid, Upsert db tn v, Get db tn q, ProxyNext c]\<rparr>,
                None))
       \<and> (\<forall>tn a c w s1 s2.
             database (net w) = None \<longrightarrow>
             persistedDataBuffer (net w) = [CUD tn m_upsert a, CUD tn m_delete c] \<longrightarrow>
             db_upsert env tn a (stores w d) = Inr s1 \<longrightarrow>
             db_delete env tn c s1 = Inr s2 \<longrightarrow>
             attach env d w =
               (w\<lparr>net := (net w)\<lparr>database := Some d, persistedDataBuffer := []\<rparr>,
                  stores := (stores w)(d := s2),
                  trace := trace w @ [Upsert d tn a, Delete d tn c]\<rparr>, Ended None))"
proof -
  note p = persist_scheduled[OF assms, of env d]
  have len: "list_all (\<lambda>v. length (scheduled env d n (this_database d n) v)
                            = (if materializes v then 1 else 0)) (persistedDataBuffer n)"
    using assms by (simp add: list_all_iff scheduled_length)
  have cud: "\<forall>tn v. scheduled env d n (this_database d n) (CUD tn m_upsert v) = [DbUpsert d tn v]
                 \<and> scheduled env d n (this_database d n) (CUD tn m_delete v) = [DbDelete d tn v]"
    by (simp add: scheduled_contents)
  have sel: "\<forall>r c. can_schedule n (Selector r c) \<longrightarrow>
             (\<exists>token. handleRequestCache env n (this_database d n) r = Inr token
                \<and> scheduled env d n (this_database d n) (Selector r c) = [SelectorDo token c])"
    using can_schedule_selector by blast
  have "persist env d' (fst (persist env d n)) = (fst (persist env d n), Inr [])"
    by (rule persist_on_empty[where ?d0.0 = "this_database d n"]) (simp_all only: p fst_conv, simp_all)
  then have again: "snd (persist env d' (fst (persist env d n))) = Inr []"
    by simp
  have seq: "\<forall>xs ys w. run_queue env (xs @ ys) w =
             (case run_queue env xs w of
                (w1, Some e) \<Rightarrow> (w1, Some e)
              | (w1, None) \<Rightarrow> run_queue env ys w1)"
    by (simp add: run_queue_append)
  have order: "\<forall>q w w' r. run_queue env q w = (w', r) \<longrightarrow>
             (\<exists>k segs. k \<le> length q \<and> runs_of (take k q) segs
                \<and> trace w' = trace w @ concat segs \<and> (r = None \<longrightarrow> k = length q))"
    using run_queue_segments by blast
  have get: "\<forall>db tn q rs c w.
             run_queued env (SelectorDo \<lparr>selector = StoreGet db tn q, mapped = rs\<rparr> c) w =
               (case db_get env tn q (stores w db) of
                  Inl e \<Rightarrow> (w\<lparr>trace := trace w @ [Get db tn q]\<rparr>, Some e)
                | Inr rows \<Rightarrow> (w\<lparr>trace := trace w @ [Get db tn q, ProxyNext c]\<rparr>, None))"
    by (intro allI) (rule run_queued_selector_get)
  have fetch: "\<forall>db tn q rs c w v s1 rows rid key.
             db_upsert env tn v (stores w db) = Inr s1 \<longrightarrow> db_get env tn q s1 = Inr rows \<longrightarrow>
             run_queued env
               (SelectorDo \<lparr>selector = FetchUpsertMarkGet (rid, ([v], None)) db tn q key,
                            mapped = rs\<rparr> c) w =
               (w\<lparr>net := (net w)\<lparr>requestMap := (requestMap (net w))(key \<mapsto> True)\<rparr>,
                  stores := (stores w)(db := s1),
                  trace := trace w @ [Fetch rid, Upsert db tn v, MarkSeen key, Get db tn q,
                                       ProxyNext c]\<rparr>,
                None)
             \<and> run_queued env
               (SelectorDo \<lparr>selector = FetchUpsertGet (rid, ([v], None)) db tn q, mapped = rs\<rparr> c) w =
               (w\<lparr>stores := (stores w)(db := s1),
                  trace := trace w @ [Fetch rid, Upsert db tn v, Get db tn q, ProxyNext c]\<rparr>,
                None)"
    by (intro allI impI) (rule run_queued_selector_fetch)
  have ab: "\<forall>tn a c w s1 s2.
             database (net w) = None \<longrightarrow>
             persistedDataBuffer (net w) = [CUD tn m_upsert a, CUD tn m_delete c] \<longrightarrow>
             db_upsert env tn a (stores w d) = Inr s1 \<longrightarrow>
             db_delete env tn c s1 = Inr s2 \<longrightarrow>
             attach env d w =
               (w\<lparr>net := (net w)\<lparr>database := Some d, persistedDataBuffer := []\<rparr>,
                  stores := (stores w)(d := s2),
                  trace := trace w @ [Upsert d tn a, Delete d tn c]\<rparr>, Ended None)"
    by (intro allI impI) (rule attach_upsert_then_delete)
  from p len cud sel again seq order get fetch ab show ?thesis
    by (intro conjI)
qed

text \<open>
  A read and the two writes of the example, issued before attachment and drained into
  the reference store: the selector runs first and is handed to channel 0, the writes
  follow in order, and row A is absent afterwards.
\<close>

theorem drain_schedules_in_insertion_order_witness:
  "persistedDataBuffer (net buffered_read_and_writes)
       = [Selector read_tasks 0, CUD ''tasks'' m_upsert rowA, CUD ''tasks'' m_delete whereA]
   \<and> list_all (can_schedule (net buffered_read_and_writes))
        (persistedDataBuffer (net buffered_read_and_writes))
   \<and> snd (persist ref_env 0 (net buffered_read_and_writes))
       = Inr [SelectorDo
                \<lparr>selector = FetchUpsertMarkGet (7, ([JArr [rowA]], None)) 0 ''tasks''
                              (query_of (Net_new tasks_schema) read_tasks)
                              (cache_key ref_env (Net_new tasks_schema) read_tasks),
                 mapped = [read_tasks]\<rparr> 0,
              DbUpsert 0 ''tasks'' rowA, DbDelete 0 ''tasks'' whereA]
   \<and> trace (fst (attach ref_env 0 buffered_read_and_writes))
       = [Fetch 1, Fetch 2,
          Fetch 7, Upsert 0 ''tasks'' (JArr [rowA]),
          MarkSeen (cache_key ref_env (Net_new tasks_schema) read_tasks),
          Get 0 ''tasks'' (query_of (Net_new tasks_schema) read_tasks), ProxyNext 0,
          Upsert 0 ''tasks'' rowA, Delete 0 ''tasks'' whereA]
   \<and> snd (attach ref_env 0 buffered_read_and_writes) = Ended None
   \<and> stores (fst (attach ref_env 0 buffered_read_and_writes)) 0 = [(''tasks'', [])]"
proof -
  have buf: "persistedDataBuffer (net buffered_read_and_writes)
       = [Selector read_tasks 0, CUD ''tasks'' m_upsert rowA, CUD ''tasks'' m_delete whereA]"
    by (simp add: buffered_read_and_writes_def lift_def handleApiResult_def bufferResponse_def
        getInfoFromResult_def read_tasks_def writeA_def deleteA_def ex_defs)
  have can: "list_all (can_schedule (net buffered_read_and_writes))
        (persistedDataBuffer (net buffered_read_and_writes))"
    unfolding buf
    by (simp add: can_schedule_def buffered_read_and_writes_def lift_def handleApiResult_def
        bufferResponse_def getInfoFromResult_def read_tasks_def writeA_def deleteA_def ex_defs)
  from drain_schedules_in_insertion_order[OF can, of ref_env 0]
  have "persist ref_env 0 (net buffered_read_and_writes) =
          ((net buffered_read_and_writes)\<lparr>database :=
               Some (this_database 0 (net buffered_read_and_writes)),
             persistedDataBuffer := []\<rparr>,
           Inr (concat (map (scheduled ref_env 0 (net buffered_read_and_writes)
                               (this_database 0 (net buffered_read_and_writes)))
                          (persistedDataBuffer (net buffered_read_and_writes)))))"
    by (rule conjunct1)
  then have q: "snd (persist ref_env 0 (net buffered_read_and_writes))
       = Inr [SelectorDo
                \<lparr>selector = FetchUpsertMarkGet (7, ([JArr [rowA]], None)) 0 ''tasks''
                              (query_of (Net_new tasks_schema) read_tasks)
                              (cache_key ref_env (Net_new tasks_schema) read_tasks),
                 mapped = [read_tasks]\<rparr> 0,
              DbUpsert 0 ''tasks'' rowA, DbDelete 0 ''tasks'' whereA]"
    unfolding buf
    by (simp add: scheduled_def this_database_def persist_each_def handleRequestCache_def
        getInfoFromResult_def genCacheKey_def query_of_def cache_key_def
        buffered_read_and_writes_def lift_def handleApiResult_def
        bufferResponse_def read_tasks_def writeA_def deleteA_def ex_defs Let_def)
  have run: "trace (fst (attach ref_env 0 buffered_read_and_writes))
       = [Fetch 1, Fetch 2,
          Fetch 7, Upsert 0 ''tasks'' (JArr [rowA]),
          MarkSeen (cache_key ref_env (Net_new tasks_schema) read_tasks),
          Get 0 ''tasks'' (query_of (Net_new tasks_schema) read_tasks), ProxyNext 0,
          Upsert 0 ''tasks'' rowA, Delete 0 ''tasks'' whereA]
   \<and> snd (attach ref_env 0 buffered_read_and_writes) = Ended None
   \<and> stores (fst (attach ref_env 0 buffered_read_and_writes)) 0 = [(''tasks'', [])]"
    by (simp add: handleRequestCache_def run_selector_def exec_get_def
        getInfoFromResult_def genCacheKey_def query_of_def cache_key_def
        buffered_read_and_writes_def lift_def handleApiResult_def whereA_def
        bufferResponse_def read_tasks_def writeA_def deleteA_def ex_defs Let_def)
  from buf can q run show ?thesis by (intro conjI) simp_all
qed

text \<open>
  The claim as stated fails: a buffered push with the method \<open>refresh\<close> is dropped by the
  drain, which clears the buffer and makes no store call for it; and when the store
  rejects the first of two buffered operations, the second is never materialized.
\<close>

theorem unhandled_push_is_dropped_counterexample:
  "persistedDataBuffer refresh_push
     = [SocketCUD ''tasks'' \<lparr>sm_id = ''1'', sm_method = ''refresh'', sm_data = JObj []\<rparr>
          ''_id'' (JStr ''task'')]
   \<and> persist ref_env 0 refresh_push
       = (refresh_push\<lparr>database := Some 0, persistedDataBuffer := []\<rparr>, Inr [])
   \<and> trace (fst (attach ref_env 0 (world0 refresh_push))) = []
   \<and> snd (persist ref_env 0 rejected_then_write)
       = Inr [DbDelete 0 ''nope'' whereA, DbUpsert 0 ''tasks'' rowA]
   \<and> trace (fst (attach ref_env 0 (world0 rejected_then_write))) = [Delete 0 ''nope'' whereA]
   \<and> stores (fst (attach ref_env 0 (world0 rejected_then_write))) 0 = [(''tasks'', [])]"
  by (simp add: ex_defs refresh_push_def rejected_then_write_def whereA_def)

text \<open>
  C2 (as amended). When the queued operations \<open>xs\<close> have run without error and the next
  one, \<open>p\<close>, fails with \<open>e\<close>, the drain ends there and \<open>e\<close> is the drain's own error:
  the calls made, the stores and the engine are the ones \<open>p\<close> left when it failed,
  whatever follows \<open>p\<close> in the queue, which is never run. The engine is attached and,
  when \<^verbatim>\<open>persist\<close> returned, its buffer is empty, whether or not the drain later fails.
\<close>

theorem drain_ends_at_first_error:
  assumes "run_queue env xs w = (w1, None)" and "run_queued env p w1 = (w2, Some e)"
  shows "snd (run_queue env (xs @ p # ys) w) = Some e
       \<and> trace (fst (run_queue env (xs @ p # ys) w)) = trace w2
       \<and> stores (fst (run_queue env (xs @ p # ys) w)) = stores w2
       \<and> net (fst (run_queue env (xs @ p # ys) w)) = net w2
       \<and> only_marks (net w) (net w2)
       \<and> database (fst (persist env d n)) = Some (this_database d n)
       \<and> (\<forall>q. snd (persist env d n) = Inr q \<longrightarrow> persistedDataBuffer (fst (persist env d n)) = [])"
proof -
  from run_queue_frame[OF assms(1)] run_queued_frame[OF assms(2)]
  have "only_marks (net w) (net w2)"
    by (auto intro: only_marks_trans)
  then show ?thesis
    using run_queue_stops[OF assms, of ys] by (simp add: persist_database persist_clears_buffer)
qed

text \<open>
  A queue of three: the first write succeeds, the second is rejected by the store, the
  third, a delete of the row the first wrote, is never run: the row is still there.
\<close>

theorem drain_ends_at_first_error_witness:
  "snd (run_queue ref_env [DbUpsert 0 ''tasks'' rowA] (world0 (Net_new tasks_schema))) = None
   \<and> snd (run_queued ref_env (DbUpsert 0 ''nope'' rowA)
            (fst (run_queue ref_env [DbUpsert 0 ''tasks'' rowA] (world0 (Net_new tasks_schema)))))
       = Some (ErrorValue ''table not found: nope'')
   \<and> snd (run_queue ref_env
            [DbUpsert 0 ''tasks'' rowA, DbUpsert 0 ''nope'' rowA, DbDelete 0 ''tasks'' whereA]
            (world0 (Net_new tasks_schema))) = Some (ErrorValue ''table not found: nope'')
   \<and> trace (fst (run_queue ref_env
            [DbUpsert 0 ''tasks'' rowA, DbUpsert 0 ''nope'' rowA, DbDelete 0 ''tasks'' whereA]
            (world0 (Net_new tasks_schema))))
       = [Upsert 0 ''tasks'' rowA, Upsert 0 ''nope'' rowA]
   \<and> stores (fst (run_queue ref_env
            [DbUpsert 0 ''tasks'' rowA, DbUpsert 0 ''nope'' rowA, DbDelete 0 ''tasks'' whereA]
            (world0 (Net_new tasks_schema)))) 0
       = [(''tasks'', [rowA])]"
proof -
  define w0 where "w0 = world0 (Net_new tasks_schema)"
  define w1 where "w1 = fst (run_queue ref_env [DbUpsert 0 ''tasks'' rowA] w0)"
  define w2 where "w2 = fst (run_queued ref_env (DbUpsert 0 ''nope'' rowA) w1)"
  have first: "run_queue ref_env [DbUpsert 0 ''tasks'' rowA] w0 = (w1, None)"
    by (simp add: w1_def w0_def ex_defs)
  have second: "run_queued ref_env (DbUpsert 0 ''nope'' rowA) w1
                  = (w2, Some (ErrorValue ''table not found: nope''))"
    by (simp add: w2_def w1_def w0_def ex_defs)
  have t2: "trace w2 = [Upsert 0 ''tasks'' rowA, Upsert 0 ''nope'' rowA]"
    and s2: "stores w2 0 = [(''tasks'', [rowA])]"
    by (simp_all add: w2_def w1_def w0_def ex_defs)
  from drain_ends_at_first_error[OF first second, of "[DbDelete 0 ''tasks'' whereA]"]
  have "snd (run_queue ref_env
            [DbUpsert 0 ''tasks'' rowA, DbUpsert 0 ''nope'' rowA, DbDelete 0 ''tasks'' whereA]
            w0) = Some (ErrorValue ''table not found: nope'')"
    and "trace (fst (run_queue ref_env
            [DbUpsert 0 ''tasks'' rowA, DbUpsert 0 ''nope'' rowA, DbDelete 0 ''tasks'' whereA]
            w0)) = trace w2"
    and "stores (fst (run_queue ref_env
            [DbUpsert 0 ''tasks'' rowA, DbUpsert 0 ''nope'' rowA, DbDelete 0 ''tasks'' whereA]
            w0)) = stores w2"
    by simp_all
  with first second t2 s2 show ?thesis
    by (simp add: w0_def[symmetric] w1_def[symmetric])
qed

text \<open>
  The claim as stated fails: with a first buffered write that the store rejects, the
  second is never sent to the store.
\<close>

theorem drain_continues_after_error_counterexample:
  "snd (persist ref_env 0 failing_first)
     = Inr [DbUpsert 0 ''nope'' rowA, DbUpsert 0 ''tasks'' rowA]
   \<and> snd (attach ref_env 0 (world0 failing_first))
       = Ended (Some (ErrorValue ''table not found: nope''))
   \<and> trace (fst (attach ref_env 0 (world0 failing_first))) = [Upsert 0 ''nope'' rowA]
   \<and> stores (fst (attach ref_env 0 (world0 failing_first))) 0 = [(''tasks'', [])]"
  by (simp add: ex_defs failing_first_def)

section \<open>Materializing a push\<close>

text \<open>
  C7 (as amended). A buffered push, drained: destroy or remove queues a store delete on
  the push's table whose \<open>where\<close> equates the primary-key field with the push id when
  the id is not empty and with the payload otherwise; new queues an upsert of the
  payload; change queues the dirty-field handler's stream when there is one for the
  type, and otherwise an upsert of the payload's properties with the primary-key field
  set to the push id (every other property as in the payload); any other method queues
  nothing. In particular \<open>{method: 'destroy', id: '42'}\<close> on \<open>tasks\<close> with primary key
  \<open>_id\<close> queues a delete where \<open>_id = '42'\<close>.
\<close>

theorem push_materialization:
  "snd (persist env d (n\<lparr>persistedDataBuffer := [SocketCUD arg m pk ty]\<rparr>)) =
     Inr (if sm_method m = ''destroy'' \<or> sm_method m = ''remove''
          then [DbDelete d arg
                  (JObj [(''where'',
                           JObj [(pk, if sm_id m \<noteq> [] then JStr (sm_id m) else sm_data m)])])]
          else if sm_method m = ''new'' then [DbUpsert d arg (sm_data m)]
          else if sm_method m = ''change'' then
            (case Dirty_handleSocketMessage env (sm_id m) ty (sm_data m) of
               Some dirtyStream \<Rightarrow> [DirtyStream d dirtyStream]
             | None \<Rightarrow>
                 [DbUpsert d arg (JObj (set_prop pk (JStr (sm_id m)) (spread (sm_data m))))])
          else [])
   \<and> js_prop (JObj (set_prop pk (JStr (sm_id m)) (spread (sm_data m)))) k
       = (if k = pk then JStr (sm_id m) else get_prop (spread (sm_data m)) k)
   \<and> snd (persist env d (n\<lparr>persistedDataBuffer :=
            [SocketCUD ''tasks'' \<lparr>sm_id = ''42'', sm_method = ''destroy'', sm_data = x\<rparr>
               ''_id'' ty]\<rparr>))
       = Inr [DbDelete d ''tasks'' (JObj [(''where'', JObj [(''_id'', JStr ''42'')])])]"
  by (simp add: persist_def persist_each_def get_prop_set_prop split: option.splits)

text \<open>
  The claim as stated fails: a destroy push with an empty id and the payload \<open>'42'\<close>
  deletes where \<open>_id\<close> is the payload, not the push id.
\<close>

theorem destroy_without_id_counterexample:
  "persistedDataBuffer destroy_by_payload
     = [SocketCUD ''tasks'' \<lparr>sm_id = [], sm_method = ''destroy'', sm_data = JStr ''42''\<rparr>
          ''_id'' (JStr ''task'')]
   \<and> snd (persist ref_env 0 destroy_by_payload)
       = Inr [DbDelete 0 ''tasks'' (JObj [(''where'', JObj [(''_id'', JStr ''42'')])])]
   \<and> snd (persist ref_env 0 destroy_by_payload)
       \<noteq> Inr [DbDelete 0 ''tasks'' (JObj [(''where'', JObj [(''_id'', JStr [])])])]"
  by (simp add: ex_defs destroy_by_payload_def)

section \<open>Reading through a token, and writing: what stays the same\<close>

lemma patch_pipe_frame:
  "patch_pipe env tn rs datum w = (w', d', em, err) \<Longrightarrow> net w' = net w \<and> logged w' = logged w"
proof (induction rs arbitrary: datum w w' d' em err)
  case Nil
  then show ?case by simp
next
  case (Cons r rs)
  show ?case
  proof (cases "r = JNull \<or> r = JUndefined")
    case True
    with Cons.prems have "patch_pipe env tn rs datum w = (w', d', em, err)" by auto
    from Cons.IH[OF this] show ?thesis .
  next
    case False
    show ?thesis
    proof (cases "database (net w)")
      case None
      with False Cons.prems show ?thesis by auto
    next
      case (Some db)
      obtain w1 r1 where u: "exec_upsert env db tn r w = (w1, r1)"
        by (cases "exec_upsert env db tn r w")
      note f = exec_upsert_frame[OF u]
      show ?thesis
      proof (cases r1)
        case (Some e)
        with False \<open>database (net w) = Some db\<close> u Cons.prems f show ?thesis by auto
      next
        case None
        obtain w2 d2 em2 err2 where
          p: "patch_pipe env tn rs (object_assign datum r) w1 = (w2, d2, em2, err2)"
          by (cases "patch_pipe env tn rs (object_assign datum r) w1") auto
        with False \<open>database (net w) = Some db\<close> u None Cons.prems have "w' = w2" by auto
        with Cons.IH[OF p] f show ?thesis by simp
      qed
    qed
  qed
qed

lemma validate_datum_frame:
  "validate_datum env r datum w = (w', d', em, err) \<Longrightarrow> net w' = net w \<and> logged w' = logged w"
proof (cases "needs_padding (net w) r datum")
  case False
  assume "validate_datum env r datum w = (w', d', em, err)"
  with False show ?thesis by (simp add: validate_datum_def)
next
  case True
  assume a: "validate_datum env r datum w = (w', d', em, err)"
  from True obtain pad pk where pp: "padding r = Some pad" "primaryKeys (net w) (tableName r) = Some pk"
    by (auto simp: needs_padding_def split: option.splits)
  obtain w1 d1 em1 e1 where
    p: "patch_pipe env (tableName r) (fst (pad (js_prop datum pk))) datum
          (w\<lparr>trace := trace w @ [Padding (js_prop datum pk)]\<rparr>) = (w1, d1, em1, e1)"
    by (cases "patch_pipe env (tableName r) (fst (pad (js_prop datum pk))) datum
          (w\<lparr>trace := trace w @ [Padding (js_prop datum pk)]\<rparr>)") auto
  with a True pp have "w' = w1"
    by (auto simp: validate_datum_def Let_def split: option.splits)
  with patch_pipe_frame[OF p] show ?thesis by simp
qed

lemma validate_each_frame:
  "validate_each env r data w = (w', data', em, err) \<Longrightarrow> net w' = net w \<and> logged w' = logged w"
proof (induction data arbitrary: w w' data' em err)
  case Nil
  then show ?case by simp
next
  case (Cons datum rest)
  obtain w1 d1 em1 e1 where v: "validate_datum env r datum w = (w1, d1, em1, e1)"
    by (cases "validate_datum env r datum w") auto
  note f = validate_datum_frame[OF v]
  show ?case
  proof (cases e1)
    case (Some e)
    with Cons.prems v f show ?thesis by auto
  next
    case None
    obtain w2 r2 em2 e2 where e: "validate_each env r rest w1 = (w2, r2, em2, e2)"
      by (cases "validate_each env r rest w1") auto
    with Cons.prems v None have "w' = w2" by auto
    with Cons.IH[OF e] f show ?thesis by simp
  qed
qed

lemma validate_frame:
  "validate env r data w = (w', out, err) \<Longrightarrow> net w' = net w \<and> logged w' = logged w"
proof (cases "data = []")
  case True
  assume "validate env r data w = (w', out, err)"
  with True show ?thesis by (simp add: validate_def)
next
  case False
  assume a: "validate env r data w = (w', out, err)"
  obtain w1 d1 em1 e1 where e: "validate_each env r data w = (w1, d1, em1, e1)"
    by (cases "validate_each env r data w") auto
  with a False have "w' = w1" by (auto simp: validate_def split: option.splits)
  with validate_each_frame[OF e] show ?thesis by simp
qed

lemma apply_mapped_frame:
  "apply_mapped env rs data w = (w', out, err) \<Longrightarrow> net w' = net w \<and> logged w' = logged w"
proof (induction rs arbitrary: data w)
  case Nil
  then show ?case by simp
next
  case (Cons r rs)
  obtain w1 o1 e1 where v: "validate env r data w = (w1, o1, e1)"
    by (cases "validate env r data w") auto
  note f = validate_frame[OF v]
  show ?case
  proof (cases "\<exists>d. o1 = Some d \<and> e1 = None")
    case True
    then obtain d where "o1 = Some d" "e1 = None" by blast
    with Cons.prems v have "apply_mapped env rs d w1 = (w', out, err)" by simp
    from Cons.IH[OF this] f show ?thesis by simp
  next
    case False
    with Cons.prems v have "w' = w1" by (auto split: option.splits)
    with f show ?thesis by simp
  qed
qed

lemma deliver_frame:
  "deliver env rs datas w = (w', outs, err) \<Longrightarrow> net w' = net w \<and> logged w' = logged w"
proof (induction datas arbitrary: w w' outs err)
  case Nil
  then show ?case by simp
next
  case (Cons data later)
  obtain w1 o1 e1 where a: "apply_mapped env rs data w = (w1, o1, e1)"
    by (cases "apply_mapped env rs data w") auto
  note f = apply_mapped_frame[OF a]
  show ?case
  proof (cases e1)
    case (Some e)
    with Cons.prems a f show ?thesis by auto
  next
    case None
    obtain w2 o2 e2 where d: "deliver env rs later w1 = (w2, o2, e2)"
      by (cases "deliver env rs later w1") auto
    with Cons.prems a None have "w' = w2" by auto
    with Cons.IH[OF d] f show ?thesis by simp
  qed
qed

lemma run_token_frame:
  "run_token env token w = (w', outs, err) \<Longrightarrow>
     only_marks (net w) (net w') \<and> logged w' = logged w"
proof -
  assume a: "run_token env token w = (w', outs, err)"
  obtain w1 o1 e1 where s: "run_selector env (selector token) [] w = (w1, o1, e1)"
    by (cases "run_selector env (selector token) [] w") auto
  obtain w2 o2 e2 where d: "deliver env (mapped token) o1 w1 = (w2, o2, e2)"
    by (cases "deliver env (mapped token) o1 w1") auto
  from a s d have "w' = w2" by (auto simp: run_token_def split: option.splits)
  with run_selector_frame[OF s] deliver_frame[OF d] show ?thesis by simp
qed

lemma cud_emit_buffer_database:
  "database (net (cud_emit_buffer r vs w)) = database (net w)"
  by (induction vs arbitrary: w) (simp_all add: bufferCUD_emit_def)

lemma cud_emit_store_frame:
  "cud_emit_store env db r vs w = (w', err) \<Longrightarrow> net w' = net w"
proof (induction vs arbitrary: w)
  case Nil
  then show ?case by simp
next
  case (Cons v vs)
  obtain w1 r1 where s:
    "(case cud_method r of
        create \<Rightarrow> exec_upsert env db (cud_tableName r) v w
      | update \<Rightarrow> exec_upsert env db (cud_tableName r) v w
      | delete \<Rightarrow> exec_delete env db (cud_tableName r) (cud_clause r) w) = (w1, r1)"
    by (cases "(case cud_method r of
        create \<Rightarrow> exec_upsert env db (cud_tableName r) v w
      | update \<Rightarrow> exec_upsert env db (cud_tableName r) v w
      | delete \<Rightarrow> exec_delete env db (cud_tableName r) (cud_clause r) w)")
  have f: "net w1 = net w"
    using s by (cases "cud_method r") (auto dest: exec_upsert_frame exec_delete_frame)
  show ?case
  proof (cases r1)
    case None
    with Cons.prems s have "cud_emit_store env db r vs w1 = (w', err)" by simp
    from Cons.IH[OF this] f show ?thesis by simp
  next
    case (Some e)
    with Cons.prems s f show ?thesis by auto
  qed
qed

lemma run_cud_database:
  "run_cud env pl w = (w', err) \<Longrightarrow> database (net w') = database (net w)"
proof (cases pl)
  case (BufferOnEmit r)
  assume "run_cud env pl w = (w', err)"
  with BufferOnEmit show ?thesis
    by (auto simp: run_cud_def cud_emit_buffer_database)
next
  case (StoreOnEmit db r)
  assume a: "run_cud env pl w = (w', err)"
  obtain w1 e1 where s: "cud_emit_store env db r (fst (snd (cud_request r)))
      (w\<lparr>trace := trace w @ [Fetch (fst (cud_request r))]\<rparr>) = (w1, e1)"
    by (cases "cud_emit_store env db r (fst (snd (cud_request r)))
      (w\<lparr>trace := trace w @ [Fetch (fst (cud_request r))]\<rparr>)")
  with a StoreOnEmit have "w' = w1" by (auto simp: run_cud_def split: option.splits)
  with cud_emit_store_frame[OF s] show ?thesis by simp
qed

lemma lift_database:
  "lift env n a = Inr (n', h) \<Longrightarrow> database n' = database n"
  by (auto simp: lift_def handleApiResult_def bufferResponse_def Let_def
      split: lift_arg.splits sum.splits option.splits prod.splits)

lemma Net_schemas_fields:
  "(fieldsMap (Net_schemas schemas n) t = None) = (t \<notin> fst ` set schemas \<and> fieldsMap n t = None)"
  by (induction schemas n rule: Net_schemas.induct) (auto split: option.splits)

lemma Net_new_fields:
  "(fieldsMap (Net_new schemas) t = None) = (t \<notin> fst ` set schemas)"
  by (simp add: Net_new_def Net_schemas_fields)

lemma lift_read_undeclared:
  "fieldsMap n (tableName r) = None \<Longrightarrow>
     lift env n (Read r) = Inl (TypeError (''table: '' @ tableName r @ '' is not defined''))"
  by (simp add: lift_def handleApiResult_def bufferResponse_def handleRequestCache_def
      getInfoFromResult_def split: option.splits)

lemma lift_read_declared:
  "fieldsMap n (tableName r) \<noteq> None \<Longrightarrow> \<exists>n' h. lift env n (Read r) = Inr (n', Handle h)"
  by (auto simp: lift_def handleApiResult_def bufferResponse_def handleRequestCache_def
      getInfoFromResult_def Let_def split: option.splits CacheStrategy.splits)

section \<open>Issuance against undeclared tables\<close>

text \<open>
  C8 (as amended). A read issued with a table name that no schema declares throws the
  schema error at issuance (\<^verbatim>\<open>lift\<close> returns the error and no new engine state, before
  anything is buffered, fetched or stored); a read against a declared table never throws
  it. A write is never checked: for every table name \<^verbatim>\<open>lift\<close> returns the write's
  pipeline and leaves the engine as it is. The declared tables are those of the schemas
  the engine was built from.
\<close>

theorem schema_error_is_thrown_by_reads_only:
  "(fieldsMap n (tableName r) = None \<longrightarrow>
      lift env n (Read r) = Inl (TypeError (''table: '' @ tableName r @ '' is not defined'')))
   \<and> (fieldsMap n (tableName r) \<noteq> None \<longrightarrow> (\<exists>n' h. lift env n (Read r) = Inr (n', Handle h)))
   \<and> lift env n (Write c) = Inr (n, Pipeline (handleCUDAResult n c))
   \<and> (fieldsMap (Net_new schemas) t = None) = (t \<notin> fst ` set schemas)"
  using lift_read_undeclared[of n r env] lift_read_declared[of n r env]
  by (simp add: Net_new_fields lift_def)

theorem schema_error_is_thrown_by_reads_only_witness:
  "fieldsMap (Net_new tasks_schema) (tableName read_undeclared) = None
   \<and> lift ref_env (Net_new tasks_schema) (Read read_undeclared)
       = Inl (TypeError ''table: nope is not defined'')
   \<and> fieldsMap (Net_new tasks_schema) (tableName read_tasks) \<noteq> None
   \<and> (\<exists>n' h. lift ref_env (Net_new tasks_schema) (Read read_tasks) = Inr (n', Handle h))"
  using schema_error_is_thrown_by_reads_only[of "Net_new tasks_schema" read_undeclared ref_env]
    schema_error_is_thrown_by_reads_only[of "Net_new tasks_schema" read_tasks ref_env]
  by (simp add: Net_new_def tasks_schema_def read_undeclared_def read_tasks_def)

text \<open>
  The claim as stated fails: a write to the undeclared table \<open>nope\<close> is accepted, attached
  or not, and before attachment its value is buffered for that table.
\<close>

theorem write_to_undeclared_table_counterexample:
  "fieldsMap (Net_new tasks_schema) (cud_tableName write_undeclared) = None
   \<and> lift ref_env (Net_new tasks_schema) (Write write_undeclared)
       = Inr (Net_new tasks_schema, Pipeline (BufferOnEmit write_undeclared))
   \<and> lift ref_env ((Net_new tasks_schema)\<lparr>database := Some 0\<rparr>) (Write write_undeclared)
       = Inr ((Net_new tasks_schema)\<lparr>database := Some 0\<rparr>, Pipeline (StoreOnEmit 0 write_undeclared))
   \<and> persistedDataBuffer (net (fst (run_cud ref_env (BufferOnEmit write_undeclared)
         (world0 (Net_new tasks_schema))))) = [CUD ''nope'' m_upsert rowA]"
  by (simp add: ex_defs write_undeclared_def lift_def)

section \<open>Attaching twice\<close>

text \<open>
  What holds of attaching twice. The engine's store reference is assigned by
  \<^verbatim>\<open>persist\<close> only when there is none:
  afterwards it is the one it was, or else the argument. A second \<^verbatim>\<open>persist\<close> right
  after a first leaves the engine unchanged and queues nothing, and a second attach right
  after a drain that ended leaves the whole world unchanged: no store call is made again. No
  other operation of the engine (buffering a push or a write, issuing a read or a write,
  running the drain, a read or a write) changes the store reference.
\<close>

theorem attach_is_first_caller_wins:
  "database (fst (persist env d n)) = Some (case database n of None \<Rightarrow> d | Some d0 \<Rightarrow> d0)
   \<and> (\<forall>q. snd (persist env d n) = Inr q \<longrightarrow>
         persist env d' (fst (persist env d n)) = (fst (persist env d n), Inr []))
   \<and> (\<forall>w1 r. attach env d w = (w1, Ended r) \<longrightarrow> attach env d' w1 = (w1, Ended None))
   \<and> database (bufferSocketPush n arg m pk ty) = database n
   \<and> database (bufferCUD_emit c v n) = database n
   \<and> (\<forall>n' h. lift env n a = Inr (n', h) \<longrightarrow> database n' = database n)
   \<and> (\<forall>w' r. run_queue env ps w = (w', r) \<longrightarrow> database (net w') = database (net w))
   \<and> (\<forall>w' out err. run_token env token w = (w', out, err) \<longrightarrow>
         database (net w') = database (net w))
   \<and> (\<forall>w' err. run_cud env pl w = (w', err) \<longrightarrow> database (net w') = database (net w))"
proof -
  have second: "persist env d' (fst (persist env d n)) = (fst (persist env d n), Inr [])"
    if "snd (persist env d n) = Inr q" for q n
    by (rule persist_on_empty[where ?d0.0 = "this_database d n"])
       (simp_all add: persist_clears_buffer[OF that] persist_database)
  have again: "attach env d' w1 = (w1, Ended None)" if a: "attach env d w = (w1, Ended r)" for w1 r
  proof -
    obtain n1 q where p: "persist env d (net w) = (n1, Inr q)"
      using a by (cases "persist env d (net w)") (auto simp: attach_def split: sum.splits)
    obtain w2 r2 where rq: "run_queue env q (w\<lparr>net := n1\<rparr>) = (w2, r2)"
      by (cases "run_queue env q (w\<lparr>net := n1\<rparr>)")
    from a p rq have w1: "w1 = w2" by (simp add: attach_def)
    from run_queue_frame[OF rq] have om: "only_marks n1 (net w2)" by simp
    from p persist_clears_buffer[of env d "net w" q] persist_database[of env d "net w"]
    have "persistedDataBuffer n1 = []" "database n1 = Some (this_database d (net w))" by simp_all
    with om have "persistedDataBuffer (net w1) = []" "database (net w1) = Some (this_database d (net w))"
      by (simp_all add: only_marks_def w1)
    from persist_on_empty[OF this, of env d'] show ?thesis
      by (simp add: attach_def)
  qed
  have rq: "database (net w') = database (net w)" if "run_queue env ps w = (w', r)" for w' r
    using run_queue_frame[OF that] by (simp add: only_marks_def)
  have rt: "database (net w') = database (net w)" if "run_token env token w = (w', out, err)" for w' out err
    using run_token_frame[OF that] by (simp add: only_marks_def)
  show ?thesis
    using second again rq rt
    by (auto simp: persist_database this_database_def bufferSocketPush_def bufferCUD_emit_def
        lift_database run_cud_database)
qed

theorem attach_is_first_caller_wins_witness:
  "snd (persist ref_env 0 (net buffered_writes))
     = Inr [DbUpsert 0 ''tasks'' rowA, DbDelete 0 ''tasks'' whereA]
   \<and> persist ref_env 1 (fst (persist ref_env 0 (net buffered_writes)))
       = ((net buffered_writes)\<lparr>database := Some 0, persistedDataBuffer := []\<rparr>, Inr [])
   \<and> snd (attach ref_env 0 buffered_writes) = Ended None
   \<and> attach ref_env 1 (fst (attach ref_env 0 buffered_writes))
       = (fst (attach ref_env 0 buffered_writes), Ended None)
   \<and> database (net (fst (attach ref_env 1 (fst (attach ref_env 0 buffered_writes))))) = Some 0"
  using attach_is_first_caller_wins[of ref_env 0 "net buffered_writes" 1 buffered_writes]
  by (simp add: ex_defs buffered_writes_def writeA_def deleteA_def whereA_def)

text \<open>
  C6. The code does not make a later attach a no-op. \<^verbatim>\<open>persist\<close> guards only the
  assignment of the store reference; it has no early return and sends the buffered
  writes and pushes to its own argument. A write issued before attachment whose request
  responds after it is buffered on the attached engine, and so is a push buffered after
  attachment; an attach with a second store then runs them on that second store, while
  the engine's reference stays the first store, which never receives them.
\<close>

theorem second_attach_runs_late_operations_on_its_store:
  "handleCUDAResult (Net_new tasks_schema) writeA = BufferOnEmit writeA
   \<and> database (net late_write) = Some 0
   \<and> persistedDataBuffer (net late_write) = [CUD ''tasks'' m_upsert rowA]
   \<and> snd (persist ref_env 1 (net late_write)) = Inr [DbUpsert 1 ''tasks'' rowA]
   \<and> trace (fst (attach ref_env 1 late_write)) = [Fetch 1, Upsert 1 ''tasks'' rowA]
   \<and> stores (fst (attach ref_env 1 late_write)) 1 = [(''tasks'', [rowA])]
   \<and> stores (fst (attach ref_env 1 late_write)) 0 = [(''tasks'', [])]
   \<and> database (net (fst (attach ref_env 1 late_write))) = Some 0
   \<and> database (net late_push) = Some 0
   \<and> snd (persist ref_env 1 (net late_push)) = Inr [DbUpsert 1 ''tasks'' rowA]
   \<and> trace (fst (attach ref_env 1 late_push)) = [Upsert 1 ''tasks'' rowA]
   \<and> stores (fst (attach ref_env 1 late_push)) 0 = [(''tasks'', [])]"
  by (simp add: late_write_def late_push_def writeA_def ex_defs Let_def)

section \<open>Reads in the attached state\<close>

lemma request_pipe_trace:
  "request_pipe env mark db tn q [] vs w = (w', out, err) \<Longrightarrow>
     (\<exists>evs. trace w' = trace w @ evs \<and> marks_follow_upserts evs)
     \<and> (requestMap (net w') = requestMap (net w)
        \<or> (\<exists>key. mark = Some key \<and> requestMap (net w') = (requestMap (net w))(key \<mapsto> True)))"
proof (induction vs arbitrary: w w' out err)
  case Nil
  then show ?case by simp
next
  case (Cons v vs)
  show ?case
  proof (cases "db_upsert env tn v (stores w db)")
    case (Inl e)
    with Cons.prems have "w' = w\<lparr>trace := trace w @ [Upsert db tn v]\<rparr>"
      by (simp add: exec_upsert_def)
    then show ?thesis by simp
  next
    case (Inr s1)
    define w2 where "w2 = (case mark of
        None \<Rightarrow> w\<lparr>trace := trace w @ [Upsert db tn v], stores := (stores w)(db := s1)\<rparr>
      | Some key \<Rightarrow> w\<lparr>trace := trace w @ [Upsert db tn v, MarkSeen key],
                       stores := (stores w)(db := s1),
                       net := (net w)\<lparr>requestMap := (requestMap (net w))(key \<mapsto> True)\<rparr>\<rparr>)"
    show ?thesis
    proof (cases "db_get env tn q s1")
      case (Inl e)
      with Cons.prems Inr have "w' = w2\<lparr>trace := trace w2 @ [Get db tn q]\<rparr>"
        by (simp add: exec_upsert_def exec_get_def w2_def split: option.splits)
      then show ?thesis by (cases mark) (simp_all add: w2_def)
    next
      case (Inr rows)
      define w3 where "w3 = w2\<lparr>trace := trace w2 @ [Get db tn q]\<rparr>"
      have w3: "net w3 = net w2" "trace w3 = trace w2 @ [Get db tn q]"
        by (simp_all add: w3_def)
      obtain w4 o4 e4 where r: "request_pipe env mark db tn q [] vs w3 = (w4, o4, e4)"
        by (cases "request_pipe env mark db tn q [] vs w3") auto
      with Cons.prems \<open>db_upsert env tn v (stores w db) = Inr s1\<close> Inr have w': "w' = w4"
        by (cases mark) (simp_all add: exec_upsert_def exec_get_def w2_def w3_def)
      from Cons.IH[OF r] obtain evs where
        evs: "trace w4 = trace w3 @ evs" "marks_follow_upserts evs"
        by blast
      from Cons.IH[OF r] have
        rm: "requestMap (net w4) = requestMap (net w2)
                 \<or> (\<exists>key. mark = Some key \<and> requestMap (net w4) = (requestMap (net w2))(key \<mapsto> True))"
        unfolding w3 by blast
      show ?thesis
      proof (cases mark)
        case None
        with evs rm w' w3 show ?thesis by (simp add: w2_def)
      next
        case (Some key)
        with evs rm w' w3 show ?thesis by (auto simp: w2_def)
      qed
    qed
  qed
qed

lemma getInfo_declared:
  "fieldsMap n (tableName r) = Some fs \<Longrightarrow>
     getInfoFromResult n r = Inr (request r, query_of n r, cacheValidate r, tableName r)"
  by (simp add: getInfoFromResult_def query_of_def Let_def)

lemma run_selector_marks:
  assumes "run_selector env (FetchUpsertMarkGet req db tn q key) [] w = (w', out, err)"
  shows "(\<exists>evs. trace w' = trace w @ Fetch (fst req) # evs \<and> marks_follow_upserts evs)
     \<and> (requestMap (net w') = requestMap (net w)
        \<or> requestMap (net w') = (requestMap (net w))(key \<mapsto> True))"
proof -
  obtain w1 o1 e1 where r: "request_pipe env (Some key) db tn q [] (fst (snd req))
        (w\<lparr>trace := trace w @ [Fetch (fst req)]\<rparr>) = (w1, o1, e1)"
    by (cases "request_pipe env (Some key) db tn q [] (fst (snd req))
        (w\<lparr>trace := trace w @ [Fetch (fst req)]\<rparr>)") auto
  with assms have "w' = w1" by (auto simp: run_selector_def split: option.splits)
  with request_pipe_trace[OF r] show ?thesis by auto
qed

text \<open>
  C3. A read issued on the attached engine with the ReuseRequest strategy, on a declared
  table. Its cache key is the table name, a colon and the serialized query. When the key
  is already seen the token reads the store and nothing else: subscribing makes the one
  store read and no network call. When it is not, the token is the pipeline over the
  request: subscribing performs the request; for a response \<open>v\<close> whose upsert succeeds
  the calls are, in this order, the fetch, the upsert of \<open>v\<close>, the marking of the key,
  the read of the store the upsert produced; when the upsert fails the pipeline ends
  there and the key is not marked, and so it is when the request emits nothing. For any
  run of the pipeline, every marking in the trace comes right after an upsert, and the
  map of seen keys is as before or has this key added.
\<close>

theorem reuse_request_read:
  assumes "database n = Some db" and "cacheValidate r = Request"
    and "fieldsMap n (tableName r) = Some fs"
  shows "cache_key env n r = tableName r @ '':'' @ JSON_stringify env (query_of n r)
   \<and> handleApiResult env n r =
       Inr (n, Attached
         \<lparr>selector =
            (if requestMap n (cache_key env n r) = Some True
             then StoreGet db (tableName r) (query_of n r)
             else FetchUpsertMarkGet (request r) db (tableName r) (query_of n r)
                    (cache_key env n r)),
          mapped = [r]\<rparr>)
   \<and> (\<forall>w tn q. fst (run_selector env (StoreGet db tn q) [] w) = w\<lparr>trace := trace w @ [Get db tn q]\<rparr>)
   \<and> (\<forall>w rid v tn q key s1. db_upsert env tn v (stores w db) = Inr s1 \<longrightarrow>
         run_selector env (FetchUpsertMarkGet (rid, ([v], None)) db tn q key) [] w =
           (w\<lparr>net := (net w)\<lparr>requestMap := (requestMap (net w))(key \<mapsto> True)\<rparr>,
              stores := (stores w)(db := s1),
              trace := trace w @ [Fetch rid, Upsert db tn v, MarkSeen key, Get db tn q]\<rparr>,
            (case db_get env tn q s1 of Inl e \<Rightarrow> [] | Inr rows \<Rightarrow> [rows]),
            (case db_get env tn q s1 of Inl e \<Rightarrow> Some e | Inr rows \<Rightarrow> None)))
   \<and> (\<forall>w rid v vs err tn q key e. db_upsert env tn v (stores w db) = Inl e \<longrightarrow>
         run_selector env (FetchUpsertMarkGet (rid, (v # vs, err)) db tn q key) [] w =
           (w\<lparr>trace := trace w @ [Fetch rid, Upsert db tn v]\<rparr>, [], Some e))
   \<and> (\<forall>w rid err tn q key.
         run_selector env (FetchUpsertMarkGet (rid, ([], err)) db tn q key) [] w =
           (w\<lparr>trace := trace w @ [Fetch rid]\<rparr>, [], err))
   \<and> (\<forall>w req tn q key w' out err.
         run_selector env (FetchUpsertMarkGet req db tn q key) [] w = (w', out, err) \<longrightarrow>
           (\<exists>evs. trace w' = trace w @ Fetch (fst req) # evs \<and> marks_follow_upserts evs)
           \<and> (requestMap (net w') = requestMap (net w)
              \<or> requestMap (net w') = (requestMap (net w))(key \<mapsto> True)))"
proof -
  have key: "cache_key env n r = tableName r @ '':'' @ JSON_stringify env (query_of n r)"
    by (simp add: cache_key_def genCacheKey_def)
  have issue: "handleApiResult env n r =
       Inr (n, Attached
         \<lparr>selector =
            (if requestMap n (cache_key env n r) = Some True
             then StoreGet db (tableName r) (query_of n r)
             else FetchUpsertMarkGet (request r) db (tableName r) (query_of n r)
                    (cache_key env n r)),
          mapped = [r]\<rparr>)"
    using assms
    by (simp add: handleApiResult_def handleRequestCache_def getInfo_declared[OF assms(3)]
        cache_key_def Let_def)
  have seen: "\<forall>w tn q. fst (run_selector env (StoreGet db tn q) [] w) = w\<lparr>trace := trace w @ [Get db tn q]\<rparr>"
    by (simp add: run_selector_def exec_get_def split: sum.splits)
  have ok: "\<forall>w rid v tn q key s1. db_upsert env tn v (stores w db) = Inr s1 \<longrightarrow>
         run_selector env (FetchUpsertMarkGet (rid, ([v], None)) db tn q key) [] w =
           (w\<lparr>net := (net w)\<lparr>requestMap := (requestMap (net w))(key \<mapsto> True)\<rparr>,
              stores := (stores w)(db := s1),
              trace := trace w @ [Fetch rid, Upsert db tn v, MarkSeen key, Get db tn q]\<rparr>,
            (case db_get env tn q s1 of Inl e \<Rightarrow> [] | Inr rows \<Rightarrow> [rows]),
            (case db_get env tn q s1 of Inl e \<Rightarrow> Some e | Inr rows \<Rightarrow> None))"
    by (simp add: run_selector_def exec_upsert_def exec_get_def split: sum.splits)
  have bad: "\<forall>w rid v vs err tn q key e. db_upsert env tn v (stores w db) = Inl e \<longrightarrow>
         run_selector env (FetchUpsertMarkGet (rid, (v # vs, err)) db tn q key) [] w =
           (w\<lparr>trace := trace w @ [Fetch rid, Upsert db tn v]\<rparr>, [], Some e)"
    by (simp add: run_selector_def exec_upsert_def)
  have none: "\<forall>w rid err tn q key.
         run_selector env (FetchUpsertMarkGet (rid, ([], err)) db tn q key) [] w =
           (w\<lparr>trace := trace w @ [Fetch rid]\<rparr>, [], err)"
    by (simp add: run_selector_def)
  have gen: "\<forall>w req tn q key w' out err.
         run_selector env (FetchUpsertMarkGet req db tn q key) [] w = (w', out, err) \<longrightarrow>
           (\<exists>evs. trace w' = trace w @ Fetch (fst req) # evs \<and> marks_follow_upserts evs)
           \<and> (requestMap (net w') = requestMap (net w)
              \<or> requestMap (net w') = (requestMap (net w))(key \<mapsto> True))"
    using run_selector_marks by blast
  show ?thesis
    using key issue seen ok bad none gen by blast
qed

lemmas read_defs = handleApiResult_def handleRequestCache_def getInfoFromResult_def
  genCacheKey_def run_token_def run_selector_def exec_get_def validate_def validate_datum_def
  needs_padding_def

text \<open>
  The read of the examples on the attached engine: first with the key unseen, then with
  the key seen, then against a store in which the upsert fails (the key stays unseen).
\<close>

theorem reuse_request_read_witness:
  "database attached0 = Some 0 \<and> cacheValidate read_tasks = Request
   \<and> fieldsMap attached0 (tableName read_tasks) = Some [''_id'', ''content'']
   \<and> handleApiResult ref_env attached0 read_tasks =
       Inr (attached0, Attached
         \<lparr>selector = FetchUpsertMarkGet (7, ([JArr [rowA]], None)) 0 ''tasks''
                       (query_of attached0 read_tasks) (cache_key ref_env attached0 read_tasks),
          mapped = [read_tasks]\<rparr>)
   \<and> map_option (\<lambda>(w, out, err). (trace w, out, err, stores w 0,
          requestMap (net w) (cache_key ref_env attached0 read_tasks)))
        (issue_and_read ref_env read_tasks (world0 attached0)) =
       Some ([Fetch 7, Upsert 0 ''tasks'' (JArr [rowA]),
              MarkSeen (cache_key ref_env attached0 read_tasks),
              Get 0 ''tasks'' (query_of attached0 read_tasks)],
             [[rowA]], None, [(''tasks'', [rowA])], Some True)
   \<and> map_option (\<lambda>(w, out, err). (trace w, out, err))
        (issue_and_read ref_env read_tasks
           ((world0 attached0)\<lparr>net := attached0\<lparr>requestMap :=
               (requestMap attached0)(cache_key ref_env attached0 read_tasks \<mapsto> True)\<rparr>\<rparr>)) =
       Some ([Get 0 ''tasks'' (query_of attached0 read_tasks)], [[]], None)
   \<and> map_option (\<lambda>(w, out, err). (trace w, out, err,
          requestMap (net w) (cache_key ref_env attached0 read_tasks)))
        (issue_and_read ref_env read_tasks ((world0 attached0)\<lparr>stores := (\<lambda>db. [])\<rparr>)) =
       Some ([Fetch 7, Upsert 0 ''tasks'' (JArr [rowA])], [],
             Some (ErrorValue ''table not found: tasks''), None)"
  using reuse_request_read[of attached0 0 read_tasks "[''_id'', ''content'']" ref_env]
  by (simp add: ex_defs read_defs attached0_def read_tasks_def issue_and_read_def
      query_of_def cache_key_def)


section \<open>Padding and the cache strategies\<close>

lemma cache_token_has_no_validate:
  "cacheValidate r = Cache \<Longrightarrow> handleRequestCache env n db r = Inr token \<Longrightarrow> mapped token = []"
  by (auto simp: handleRequestCache_def getInfoFromResult_def Let_def
      split: option.splits CacheStrategy.splits)

text \<open>
  C1. The code does not do what the claim says for a read issued on the attached engine
  with the AlwaysRefetch strategy (\<^verbatim>\<open>CacheStrategy.Cache\<close>): \<^verbatim>\<open>handleRequestCache\<close> maps
  \<^verbatim>\<open>validate\<close> over the token in its \<^verbatim>\<open>Request\<close> case only. The record read back lacks the
  required field \<open>content\<close> and the padding function is never called; the same read
  under ReuseRequest is padded, and so is the token of the same read issued before
  attachment (\<^verbatim>\<open>bufferResponse\<close> maps \<^verbatim>\<open>validate\<close> whatever the strategy).
\<close>

theorem cache_strategy_read_is_not_padded:
  "map_option (\<lambda>(w, out, err). (trace w, out, err))
     (issue_and_read ref_env (read_padded Cache) (world0 attached0)) =
     Some ([Fetch 9, Upsert 0 ''tasks'' (JArr [JObj [(''_id'', JStr ''A'')]]),
            Get 0 ''tasks'' (query_of attached0 (read_padded Cache))],
           [[JObj [(''_id'', JStr ''A'')]]], None)
   \<and> map_option (\<lambda>(w, out, err). (trace w, out, err))
       (issue_and_read ref_env (read_padded Request) (world0 attached0)) =
       Some ([Fetch 9, Upsert 0 ''tasks'' (JArr [JObj [(''_id'', JStr ''A'')]]),
              MarkSeen (cache_key ref_env attached0 (read_padded Request)),
              Get 0 ''tasks'' (query_of attached0 (read_padded Request)),
              Padding (JStr ''A''),
              Upsert 0 ''tasks'' (JObj [(''_id'', JStr ''A''), (''content'', JStr ''x'')])],
             [[JObj [(''_id'', JStr ''A''), (''content'', JStr ''x'')]]], None)
   \<and> map_sum id snd (bufferResponse (Net_new tasks_schema) (read_padded Cache))
       = Inr (Pending 0 [read_padded Cache])"
  by (simp add: ex_defs read_defs attached0_def read_padded_def issue_and_read_def
      query_of_def cache_key_def bufferResponse_def Let_def)

text \<open>
  What \<^verbatim>\<open>validate\<close> does where it is applied: an empty result passes through with no
  call; a record needs padding exactly when a list of required fields, a padding function
  and a non-empty primary key are configured and one of the required fields is undefined
  in it; a record that does not need it is left alone; for one that does, the padding
  function is called with the record's primary-key value, a replacement that is not
  null is upserted and assigned onto the record, and a null replacement leaves the
  record as it is, with no store call.
\<close>

theorem validate_pads_incomplete_records:
  "validate env r [] w = (w, Some [], None)
   \<and> needs_padding n r datum =
       (\<exists>req pad pk. required r = Some req \<and> padding r = Some pad
          \<and> primaryKeys n (tableName r) = Some pk \<and> pk \<noteq> []
          \<and> (\<exists>k \<in> set req. js_prop datum k = JUndefined))
   \<and> (\<not> needs_padding (net w) r datum \<longrightarrow> validate_datum env r datum w = (w, datum, True, None))
   \<and> (\<forall>pad pk rep db s1.
         needs_padding (net w) r datum \<longrightarrow> padding r = Some pad \<longrightarrow>
         primaryKeys (net w) (tableName r) = Some pk \<longrightarrow>
         pad (js_prop datum pk) = ([rep], None) \<longrightarrow> rep \<noteq> JNull \<longrightarrow> rep \<noteq> JUndefined \<longrightarrow>
         database (net w) = Some db \<longrightarrow> db_upsert env (tableName r) rep (stores w db) = Inr s1 \<longrightarrow>
         validate_datum env r datum w =
           (w\<lparr>trace := trace w @ [Padding (js_prop datum pk), Upsert db (tableName r) rep],
              stores := (stores w)(db := s1)\<rparr>,
            object_assign datum rep, True, None))
   \<and> (\<forall>pad pk rep.
         needs_padding (net w) r datum \<longrightarrow> padding r = Some pad \<longrightarrow>
         primaryKeys (net w) (tableName r) = Some pk \<longrightarrow>
         pad (js_prop datum pk) = ([rep], None) \<longrightarrow> rep = JNull \<or> rep = JUndefined \<longrightarrow>
         validate_datum env r datum w =
           (w\<lparr>trace := trace w @ [Padding (js_prop datum pk)]\<rparr>, datum, False, None))"
proof -
  have np: "needs_padding n r datum =
       (\<exists>req pad pk. required r = Some req \<and> padding r = Some pad
          \<and> primaryKeys n (tableName r) = Some pk \<and> pk \<noteq> []
          \<and> (\<exists>k \<in> set req. js_prop datum k = JUndefined))"
    by (auto simp: needs_padding_def list_all_iff split: option.splits)
  have a: "validate env r [] w = (w, Some [], None)"
    by (simp add: validate_def)
  have b: "\<not> needs_padding (net w) r datum \<longrightarrow> validate_datum env r datum w = (w, datum, True, None)"
    by (simp add: validate_datum_def)
  have c: "\<forall>pad pk rep db s1.
         needs_padding (net w) r datum \<longrightarrow> padding r = Some pad \<longrightarrow>
         primaryKeys (net w) (tableName r) = Some pk \<longrightarrow>
         pad (js_prop datum pk) = ([rep], None) \<longrightarrow> rep \<noteq> JNull \<longrightarrow> rep \<noteq> JUndefined \<longrightarrow>
         database (net w) = Some db \<longrightarrow> db_upsert env (tableName r) rep (stores w db) = Inr s1 \<longrightarrow>
         validate_datum env r datum w =
           (w\<lparr>trace := trace w @ [Padding (js_prop datum pk), Upsert db (tableName r) rep],
              stores := (stores w)(db := s1)\<rparr>,
            object_assign datum rep, True, None)"
    by (simp add: validate_datum_def exec_upsert_def)
  have d: "\<forall>pad pk rep.
         needs_padding (net w) r datum \<longrightarrow> padding r = Some pad \<longrightarrow>
         primaryKeys (net w) (tableName r) = Some pk \<longrightarrow>
         pad (js_prop datum pk) = ([rep], None) \<longrightarrow> rep = JNull \<or> rep = JUndefined \<longrightarrow>
         validate_datum env r datum w =
           (w\<lparr>trace := trace w @ [Padding (js_prop datum pk)]\<rparr>, datum, False, None)"
    by (auto simp: validate_datum_def)
  from np a b c d show ?thesis by blast
qed

theorem validate_pads_incomplete_records_witness:
  "needs_padding attached0 (read_padded Request) (JObj [(''_id'', JStr ''A'')])
   \<and> \<not> needs_padding attached0 (read_padded Request)
         (JObj [(''_id'', JStr ''A''), (''content'', JStr ''y'')])
   \<and> validate ref_env (read_padded Request)
        [JObj [(''_id'', JStr ''A'')], JObj [(''_id'', JStr ''B''), (''content'', JStr ''y'')]]
        (world0 attached0) =
       ((world0 attached0)\<lparr>trace := [Padding (JStr ''A''),
            Upsert 0 ''tasks'' (JObj [(''_id'', JStr ''A''), (''content'', JStr ''x'')])],
          stores := (\<lambda>db. [(''tasks'', [])])
             (0 := [(''tasks'', [JObj [(''_id'', JStr ''A''), (''content'', JStr ''x'')]])])\<rparr>,
        Some [JObj [(''_id'', JStr ''A''), (''content'', JStr ''x'')],
              JObj [(''_id'', JStr ''B''), (''content'', JStr ''y'')]], None)"
  using validate_pads_incomplete_records[of ref_env "read_padded Request" "world0 attached0"
      attached0 "JObj [(''_id'', JStr ''A'')]"]
  by (simp add: ex_defs read_defs attached0_def read_padded_def Let_def)

section \<open>Requests in flight\<close>

text \<open>
  What holds of the cache of streams: a second call for a key whose entry is still there
  gets the same stream and changes nothing; the end of a subscription removes the entry
  of its key; a call made after that builds a new stream.
\<close>

lemma sdk_get_shares_the_stream:
  "fst (sdk_get e tail url q st) \<noteq> None
   \<and> fst (sdk_get e tail' url q (snd (sdk_get e tail url q st))) = fst (sdk_get e tail url q st)
   \<and> snd (sdk_get e tail' url q (snd (sdk_get e tail url q st))) = snd (sdk_get e tail url q st)"
  by (simp add: sdk_get_def Let_def)

lemma finish_evicts_the_entry:
  "map_of (in_flight st) sid = Some d \<Longrightarrow>
     FetchStack (finish_subscription sid st) (dist_key d) = None"
  by (simp add: finish_subscription_def)

lemma get_after_finish_is_new:
  "FetchStack st (urlWithQuery url q) = None \<Longrightarrow>
     map_option dist_id (fst (sdk_get e tail url q st)) = Some (created st)"
  by (simp add: sdk_get_def Let_def)

text \<open>
  C4. The code does not keep the invariant the claim states. Two callers that ask for
  the same resource before any response get the same stream, and each subscribes to it:
  the transport is invoked twice and two network calls for the one key are in flight at
  the same time. The sharing operators sit inside the \<^verbatim>\<open>defer\<close> factory, which runs once
  per subscriber, so nothing is shared between subscribers.
\<close>

theorem two_subscribers_make_two_transport_calls:
  "fst (sdk_get (\<lambda>q. q = JObj []) ''1'' ''host/tasks'' JUndefined fetch_state0)
     = Some \<lparr>dist_id = 0, dist_url = ''host/tasks?_=1'', dist_key = ''host/tasks''\<rparr>
   \<and> fst (sdk_get (\<lambda>q. q = JObj []) ''1'' ''host/tasks'' JUndefined
           (snd (sdk_get (\<lambda>q. q = JObj []) ''1'' ''host/tasks'' JUndefined fetch_state0)))
       = Some \<lparr>dist_id = 0, dist_url = ''host/tasks?_=1'', dist_key = ''host/tasks''\<rparr>
   \<and> transport_calls two_callers = [''host/tasks?_=1'', ''host/tasks?_=1'']
   \<and> in_flight_for ''host/tasks'' two_callers = 2"
  by (simp add: two_callers_def sdk_get_def fetch_state0_def subscribe_dist_def in_flight_for_def
      urlWithQuery_def Let_def)

section \<open>The headers and options of an instance\<close>

lemma same_below_refl: "n \<le> length h \<Longrightarrow> same_below n h h"
  by (simp add: same_below_def)

lemma same_below_trans: "same_below n a b \<Longrightarrow> same_below n b c \<Longrightarrow> same_below n a c"
  by (simp add: same_below_def)

lemma same_below_alloc: "n \<le> length h \<Longrightarrow> alloc ob h = (a, h') \<Longrightarrow> same_below n h h' \<and> a = length h \<and> length h' = Suc (length h)"
  by (auto simp: same_below_def alloc_def)

lemma same_below_mutate: "n \<le> length h \<Longrightarrow> n \<le> a \<Longrightarrow> same_below n h (mutate a f h) \<and> length (mutate a f h) = length h"
  by (auto simp: same_below_def mutate_def)

lemma same_below_deref: "same_below n h h' \<Longrightarrow> a < n \<Longrightarrow> deref h' a = deref h a"
proof -
  assume sb: "same_below n h h'" and a: "a < n"
  from sb have eq: "take n h' = take n h" and len: "n \<le> length h" "n \<le> length h'"
    by (simp_all add: same_below_def)
  have "h' ! a = take n h' ! a" using a by simp
  also have "\<dots> = take n h ! a" using eq by simp
  also have "\<dots> = h ! a" using a by simp
  finally show ?thesis using a len by (simp add: deref_def)
qed

lemma hget_hset_prop: "hget (hset_prop k v ob) k = v"
  by (induction ob) auto

lemma hget_filter_other: "k \<noteq> k' \<Longrightarrow> hget (filter (\<lambda>(x, v). x \<noteq> k') ob) k = hget ob k"
  by (induction ob) auto

lemma Http_new_fresh:
  "Http_new b h = (http, h') \<Longrightarrow>
     same_below (length h) h h' \<and> http_opts http = Suc (length h) \<and> length h' = Suc (Suc (length h))"
  by (auto simp: Http_new_def alloc_def same_below_def Let_def)

lemma Http_setHeaders_frame:
  assumes "n \<le> length h" "n \<le> http_opts http" "http_opts http < length h"
  shows "same_below n h (Http_setHeaders hs http h)
       \<and> length (Http_setHeaders hs http h) = Suc (length h)
       \<and> hget (deref (Http_setHeaders hs http h) (http_opts http)) ''headers'' = Ref (length h)"
  using assms
  by (auto simp: Http_setHeaders_def alloc_def mutate_def same_below_def deref_def Let_def
      hget_hset_prop nth_append)

lemma Http_setToken_frame:
  assumes "n \<le> length h" "n \<le> http_opts http" "http_opts http < length h"
    and "hget (deref h (http_opts http)) ''headers'' = Ref a" "n \<le> a"
  shows "same_below n h (snd (Http_setToken t http h))
       \<and> length (snd (Http_setToken t http h)) = length h"
proof -
  define h1 where "h1 = mutate (http_opts http) (filter (\<lambda>(k, v). k \<noteq> ''credentials'')) h"
  have s1: "same_below n h h1" "length h1 = length h"
    using same_below_mutate[OF assms(1,2)] by (simp_all add: h1_def)
  have g: "hget (deref h1 (http_opts http)) ''headers'' = Ref a"
    using assms(3,4) by (simp add: h1_def mutate_def deref_def hget_filter_other)
  have "n \<le> length h1" using s1 assms(1) by simp
  from same_below_mutate[OF this assms(5)]
  have s2: "same_below n h1 (mutate a (hset_prop ''Authorization'' (Plain (JStr (''OAuth2 '' @ t)))) h1)"
    "length (mutate a (hset_prop ''Authorization'' (Plain (JStr (''OAuth2 '' @ t)))) h1) = length h1"
    by simp_all
  have "snd (Http_setToken t http h) = mutate a (hset_prop ''Authorization'' (Plain (JStr (''OAuth2 '' @ t)))) h1"
    using g by (simp add: Http_setToken_def h1_def[symmetric] Let_def)
  with s1 s2 show ?thesis by (auto intro: same_below_trans)
qed

lemma Http_setOpts_frame:
  "n \<le> length h \<Longrightarrow> same_below n h (snd (Http_setOpts os http h))"
  by (auto simp: Http_setOpts_def alloc_def same_below_def Let_def)


lemma same_below_length: "same_below n h h' \<Longrightarrow> n \<le> length h'"
  by (simp add: same_below_def)

lemma per_request_headers_frame:
  "n \<le> length h \<Longrightarrow> per_request_headers s fo h = (hs, h1) \<Longrightarrow>
     same_below n h h1 \<and> length h \<le> length h1"
  by (auto simp: per_request_headers_def alloc_def same_below_def Let_def
      split: hval.splits if_splits)

lemma per_request_options_frame:
  "n \<le> length h \<Longrightarrow> per_request_options s fo h = (os, h1) \<Longrightarrow>
     same_below n h h1 \<and> length h \<le> length h1"
  by (auto simp: per_request_options_def alloc_def same_below_def Let_def)

lemma setOptionsPerRequest_frame:
  assumes "n \<le> length h" "n \<le> http_opts http" "http_opts http < length h"
  shows "same_below n h (snd (snd (setOptionsPerRequest s http fo h)))"
proof -
  obtain hs h1 where ph: "per_request_headers s fo h = (hs, h1)"
    by (cases "per_request_headers s fo h")
  obtain os h2 where po: "per_request_options s fo h1 = (os, h2)"
    by (cases "per_request_options s fo h1")
  define t where "t = per_request_token s fo"
  define h3 where "h3 = Http_setHeaders hs http h2"
  note f1 = per_request_headers_frame[OF assms(1) ph]
  have n1: "n \<le> length h1" using f1 assms(1) by simp
  note f2 = per_request_options_frame[OF n1 po]
  have n2: "n \<le> length h2" "http_opts http < length h2" using f1 f2 assms by simp_all
  note f3 = Http_setHeaders_frame[OF n2(1) assms(2) n2(2), of hs, folded h3_def]
  have n3: "n \<le> length h3" "http_opts http < length h3" using f3 n2 by simp_all
  have s03: "same_below n h h3"
    using f1 f2 f3 by (blast intro: same_below_trans)
  obtain err h4 where tk: "(if t \<noteq> [] then Http_setToken t http h3 else (None, h3)) = (err, h4)"
    by (cases "(if t \<noteq> [] then Http_setToken t http h3 else (None, h3))")
  have s34: "same_below n h3 h4"
  proof (cases "t \<noteq> []")
    case True
    from f3 have g: "hget (deref h3 (http_opts http)) ''headers'' = Ref (length h2)" by simp
    from Http_setToken_frame[OF n3(1) assms(2) n3(2) g n2(1), of t] tk True
    show ?thesis by simp
  next
    case False
    with tk n3 show ?thesis by (simp add: same_below_refl)
  qed
  have s04: "same_below n h h4" using s03 s34 by (rule same_below_trans)
  have n4: "n \<le> length h4" using s04 by (rule same_below_length)
  have res: "snd (snd (setOptionsPerRequest s http fo h)) =
        (case err of Some e \<Rightarrow> h4
         | None \<Rightarrow> if deref h4 os \<noteq> [] then snd (Http_setOpts os http h4) else h4)"
    unfolding setOptionsPerRequest_def ph po prod.case Let_def t_def[symmetric]
      h3_def[symmetric] tk
    by (cases err) (simp_all split: prod.splits)
  show ?thesis
  proof (cases err)
    case (Some e)
    with res s04 show ?thesis by simp
  next
    case None
    show ?thesis
    proof (cases "deref h4 os \<noteq> []")
      case True
      with res None have "snd (snd (setOptionsPerRequest s http fo h)) = snd (Http_setOpts os http h4)"
        by simp
      with same_below_trans[OF s04 Http_setOpts_frame[OF n4]] show ?thesis by simp
    next
      case False
      with res None s04 show ?thesis by simp
    qed
  qed
qed

lemma sdk_step_frame: "same_below (length h) h (snd (sdk_step c (s, h)))"
proof (cases c)
  case (Send fo)
  obtain http h1 where hn: "Http_new (htruthy (hget fo ''includeHeaders'')) h = (http, h1)"
    by (cases "Http_new (htruthy (hget fo ''includeHeaders'')) h")
  note f = Http_new_fresh[OF hn]
  have "same_below (length h) h1 (snd (snd (setOptionsPerRequest s http fo h1)))"
    by (rule setOptionsPerRequest_frame) (use f in simp_all)
  with f have "same_below (length h) h (snd (snd (setOptionsPerRequest s http fo h1)))"
    by (blast intro: same_below_trans)
  with Send hn show ?thesis by simp
qed (simp_all add: same_below_def getHeaders_def getOptions_def alloc_def)

lemma sdk_step_fields:
  "sdk_headers (fst (sdk_step c (s, h))) = (case c of SetHeaders r \<Rightarrow> r | _ \<Rightarrow> sdk_headers s)
   \<and> sdk_options (fst (sdk_step c (s, h))) = (case c of SetOptions r \<Rightarrow> r | _ \<Rightarrow> sdk_options s)"
  by (cases c)
     (simp_all add: setAPIHost_def setHeaders_def setToken_def setOptions_def split: prod.splits)

lemma hset_prop_fresh: "k \<notin> fst ` set ob \<Longrightarrow> hset_prop k v ob = ob @ [(k, v)]"
  by (induction ob) auto

lemma fold_hset_prop_distinct:
  "distinct (map fst (acc @ ob)) \<Longrightarrow> fold (\<lambda>(k, v) t. hset_prop k v t) ob acc = acc @ ob"
proof (induction ob arbitrary: acc)
  case Nil
  then show ?case by simp
next
  case (Cons kv ob)
  obtain k v where kv: "kv = (k, v)" by (cases kv)
  from Cons.prems kv have fresh: "k \<notin> fst ` set acc" by auto
  from Cons.prems kv have "distinct (map fst ((acc @ [(k, v)]) @ ob))" by simp
  from Cons.IH[OF this] kv fresh show ?case by (simp add: hset_prop_fresh)
qed

lemma hassign_copy: "distinct (map fst ob) \<Longrightarrow> hassign [] ob = ob"
  using fold_hset_prop_distinct[of "[]" ob] by (simp add: hassign_def)

lemma mutate_fresh_keeps:
  "a < length h \<Longrightarrow> deref (mutate (length h) f (h @ [ob])) a = deref h a"
  by (simp add: mutate_def deref_def nth_append)

text \<open>
  C9. For an instance whose headers and options are live objects: \<^verbatim>\<open>getHeaders\<close> and
  \<^verbatim>\<open>getOptions\<close> return a reference that did not exist before, to a new object holding
  the properties of the instance's object (the same properties, in the same order, for
  an object, whose keys are distinct); whatever is then done to the returned object, the
  instance's headers and options objects are as they were. Of all the public methods
  only \<^verbatim>\<open>setHeaders\<close> changes the headers field and only \<^verbatim>\<open>setOptions\<close> the options
  field, and none changes the objects the two fields refer to: a request works on
  copies.
\<close>

theorem getters_return_fresh_copies:
  assumes "sdk_headers s < length h" and "sdk_options s < length h"
  shows "getHeaders s h = (length h, h @ [hassign [] (h ! sdk_headers s)])
     \<and> getOptions s h = (length h, h @ [hassign [] (h ! sdk_options s)])
     \<and> (distinct (map fst (h ! sdk_headers s)) \<longrightarrow>
          deref (snd (getHeaders s h)) (fst (getHeaders s h)) = deref h (sdk_headers s))
     \<and> (distinct (map fst (h ! sdk_options s)) \<longrightarrow>
          deref (snd (getOptions s h)) (fst (getOptions s h)) = deref h (sdk_options s))
     \<and> (\<forall>f. deref (mutate (fst (getHeaders s h)) f (snd (getHeaders s h))) (sdk_headers s)
              = deref h (sdk_headers s)
           \<and> deref (mutate (fst (getHeaders s h)) f (snd (getHeaders s h))) (sdk_options s)
              = deref h (sdk_options s))
     \<and> (\<forall>f. deref (mutate (fst (getOptions s h)) f (snd (getOptions s h))) (sdk_headers s)
              = deref h (sdk_headers s)
           \<and> deref (mutate (fst (getOptions s h)) f (snd (getOptions s h))) (sdk_options s)
              = deref h (sdk_options s))
     \<and> (\<forall>c. sdk_headers (fst (sdk_step c (s, h)))
              = (case c of SetHeaders r \<Rightarrow> r | _ \<Rightarrow> sdk_headers s)
           \<and> sdk_options (fst (sdk_step c (s, h)))
              = (case c of SetOptions r \<Rightarrow> r | _ \<Rightarrow> sdk_options s)
           \<and> deref (snd (sdk_step c (s, h))) (sdk_headers s) = deref h (sdk_headers s)
           \<and> deref (snd (sdk_step c (s, h))) (sdk_options s) = deref h (sdk_options s))"
proof -
  have gh: "getHeaders s h = (length h, h @ [hassign [] (h ! sdk_headers s)])"
    using assms by (simp add: getHeaders_def alloc_def deref_def)
  have go: "getOptions s h = (length h, h @ [hassign [] (h ! sdk_options s)])"
    using assms by (simp add: getOptions_def alloc_def deref_def)
  have copy_h: "distinct (map fst (h ! sdk_headers s)) \<longrightarrow>
          deref (snd (getHeaders s h)) (fst (getHeaders s h)) = deref h (sdk_headers s)"
    using assms by (simp add: gh deref_def hassign_copy)
  have copy_o: "distinct (map fst (h ! sdk_options s)) \<longrightarrow>
          deref (snd (getOptions s h)) (fst (getOptions s h)) = deref h (sdk_options s)"
    using assms by (simp add: go deref_def hassign_copy)
  have steps: "deref (snd (sdk_step c (s, h))) a = deref h a" if "a < length h" for c a
    using same_below_deref[OF sdk_step_frame that] .
  show ?thesis
    using gh go copy_h copy_o assms
    by (simp add: mutate_fresh_keeps sdk_step_fields steps)
qed

theorem getters_return_fresh_copies_witness:
  "sdk_headers (fst sdk0) < length (snd sdk0) \<and> sdk_options (fst sdk0) < length (snd sdk0)
   \<and> getHeaders (fst sdk0) (snd sdk0) =
       (2, snd sdk0 @ [[(''Accept'', Plain (JStr ''application/json'')),
                        (''Content-Type'', Plain (JStr ''application/json''))]])
   \<and> deref (mutate 2 (hset_prop ''Accept'' (Plain (JStr ''text/html'')))
              (snd (getHeaders (fst sdk0) (snd sdk0)))) 0
       = [(''Accept'', Plain (JStr ''application/json'')),
          (''Content-Type'', Plain (JStr ''application/json''))]
   \<and> deref (snd (sdk_step (Send [(''token'', Plain (JStr ''t1''))]) sdk0)) 0
       = [(''Accept'', Plain (JStr ''application/json'')),
          (''Content-Type'', Plain (JStr ''application/json''))]
   \<and> deref (snd (sdk_step (Send [(''token'', Plain (JStr ''t1''))]) sdk0)) 5
       = [(''Accept'', Plain (JStr ''application/json'')),
          (''Content-Type'', Plain (JStr ''application/json'')),
          (''Authorization'', Plain (JStr ''OAuth2 t1''))]"
proof -
  have live: "sdk_headers (fst sdk0) < length (snd sdk0)"
    "sdk_options (fst sdk0) < length (snd sdk0)"
    by (simp_all add: sdk0_def)
  from getters_return_fresh_copies[OF live]
  have "getHeaders (fst sdk0) (snd sdk0) =
          (length (snd sdk0), snd sdk0 @ [hassign [] (snd sdk0 ! sdk_headers (fst sdk0))])"
    by (rule conjunct1)
  then have copy: "getHeaders (fst sdk0) (snd sdk0) =
       (2, snd sdk0 @ [[(''Accept'', Plain (JStr ''application/json'')),
                        (''Content-Type'', Plain (JStr ''application/json''))]])"
    by (simp add: sdk0_def hassign_def)
  have mutated: "deref (mutate 2 (hset_prop ''Accept'' (Plain (JStr ''text/html'')))
              (snd (getHeaders (fst sdk0) (snd sdk0)))) 0
       = [(''Accept'', Plain (JStr ''application/json'')),
          (''Content-Type'', Plain (JStr ''application/json''))]"
    by (simp add: copy) (simp add: sdk0_def deref_def mutate_def)
  have sent: "snd (sdk_step (Send [(''token'', Plain (JStr ''t1''))]) sdk0) =
       [[(''Accept'', Plain (JStr ''application/json'')),
         (''Content-Type'', Plain (JStr ''application/json''))],
        [],
        [],
        [(''headers'', Ref 5)],
        [],
        [(''Accept'', Plain (JStr ''application/json'')),
         (''Content-Type'', Plain (JStr ''application/json'')),
         (''Authorization'', Plain (JStr ''OAuth2 t1''))]]"
    by (simp add: sdk0_def alloc_def deref_def mutate_def hassign_def
      Http_new_def setOptionsPerRequest_def per_request_headers_def per_request_token_def
      per_request_options_def named_options_def Http_setHeaders_def Http_setToken_def
      spread_of_def Let_def)
  show ?thesis
    using live copy mutated by (simp add: sent deref_def)
qed

end
